theory Spec2Isabelle
  imports Complex_Main "HOL-Library.Word"
begin

unbundle bit_operations_syntax

section \<open>Data model (src/types/index.ts)\<close>

text \<open>
  JavaScript numbers are modelled as real numbers, and NaN and the infinities are written out
  as separate branches where the source can produce them. The arithmetic of the source is read
  as exact arithmetic, except in \<open>generateWaveformData\<close> and \<open>applyDynamicScaling\<close>, which
  compare computed values against thresholds: there every constant and every arithmetic
  operation is rounded to binary64 as the source rounds it (function \<open>fl\<close> below).
\<close>

datatype CrossfaderCurve = Linear | Cut

record EQSettings =
  high :: real
  mid :: real
  low :: real

record MasterSettings =
  volume :: real
  master_eq :: EQSettings

text \<open>
  A deck object as it exists at run time. The interface \<open>DeckState\<close> declares every
  property as required, but a deck object that arrives in a broadcast message is never
  checked against the interface, so each property may be absent (\<open>None\<close>).
  \<open>seekTo\<close> is \<open>number | null\<close>: a present property holding \<open>null\<close> is \<open>Some None\<close>.
\<close>

record DeckState =
  videoId :: "string option"
  title :: "string option"
  artist :: "string option"
  playing :: "bool option"
  lyrics :: "string option"
  deck_eq :: "EQSettings option"
  gain :: "real option"
  filter_pos :: "real option"
  currentTime :: "real option"
  duration :: "real option"
  seekTo :: "real option option"
  playbackRate :: "real option"

record DJStoreState =
  crossfaderValue :: real
  crossfaderCurve :: CrossfaderCurve
  deckA :: DeckState
  deckB :: DeckState
  master :: MasterSettings
  audioEngineStarted :: bool
  isMidiConnected :: bool

text \<open>\<open>Partial<DJStoreState>\<close>: every top-level property is optional.\<close>

record PartialDJStoreState =
  p_crossfaderValue :: "real option"
  p_crossfaderCurve :: "CrossfaderCurve option"
  p_deckA :: "DeckState option"
  p_deckB :: "DeckState option"
  p_master :: "MasterSettings option"
  p_audioEngineStarted :: "bool option"
  p_isMidiConnected :: "bool option"

datatype BroadcastMessage =
    STATE_UPDATE PartialDJStoreState
  | FULL_STATE DJStoreState

record CrossfaderOutput =
  deckAOpacity :: real
  deckBOpacity :: real
  deckAVolume :: real
  deckBVolume :: real

definition DEFAULT_EQ :: EQSettings where
  "DEFAULT_EQ = \<lparr>high = 0, mid = 0, low = 0\<rparr>"

definition DEFAULT_MASTER :: MasterSettings where
  "DEFAULT_MASTER = \<lparr>volume = 1, master_eq = DEFAULT_EQ\<rparr>"

definition DEFAULT_DECK_STATE :: DeckState where
  "DEFAULT_DECK_STATE =
     \<lparr>videoId = Some '''', title = Some '''', artist = Some '''', playing = Some False,
      lyrics = Some '''', deck_eq = Some DEFAULT_EQ, gain = Some 1, filter_pos = Some 0,
      currentTime = Some 0, duration = Some 0, seekTo = Some None, playbackRate = Some 1\<rparr>"

definition DEFAULT_DJ_STATE :: DJStoreState where
  "DEFAULT_DJ_STATE =
     \<lparr>crossfaderValue = 1 / 2, crossfaderCurve = Linear,
      deckA = DEFAULT_DECK_STATE, deckB = DEFAULT_DECK_STATE, master = DEFAULT_MASTER,
      audioEngineStarted = False, isMidiConnected = False\<rparr>"

text \<open>The controller profile \<open>DDJ200\<close>.\<close>

definition CROSSFADER_CC :: "8 word" where "CROSSFADER_CC = 51"
definition DECK_A_PLAY_NOTE :: "8 word" where "DECK_A_PLAY_NOTE = 11"
definition DECK_A_CUE_NOTE :: "8 word" where "DECK_A_CUE_NOTE = 12"


section \<open>Crossfader (src/utils/crossfaderCurve.ts)\<close>

definition applyCenterFullCurve :: "real \<Rightarrow> CrossfaderOutput" where
  "applyCenterFullCurve v =
     (let deckAVolume = (if v \<le> 1 / 2 then 1 else (1 - v) * 2);
          deckBVolume = (if v \<le> 1 / 2 then v * 2 else 1);
          totalVolume = deckAVolume + deckBVolume;
          deckAOpacity = (if totalVolume > 0 then deckAVolume / totalVolume else 1 / 2);
          deckBOpacity = (if totalVolume > 0 then deckBVolume / totalVolume else 1 / 2)
      in \<lparr>deckAOpacity = deckAOpacity, deckBOpacity = deckBOpacity,
          deckAVolume = deckAVolume, deckBVolume = deckBVolume\<rparr>)"

definition applyCurve :: "real \<Rightarrow> CrossfaderCurve \<Rightarrow> CrossfaderOutput" where
  "applyCurve v curve = (let clampedValue = max 0 (min 1 v) in applyCenterFullCurve clampedValue)"

definition midiToNormalized :: "real \<Rightarrow> real" where
  "midiToNormalized midiValue = max 0 (min 127 midiValue) / 127"


section \<open>Store (src/stores/djStore.ts)\<close>

text \<open>
  The object spread \<open>{ ...prev, ...payload }\<close> on the top-level properties: a property
  present in the payload overrides, an absent one keeps the previous value.
\<close>

definition spread :: "DJStoreState \<Rightarrow> PartialDJStoreState \<Rightarrow> DJStoreState" where
  "spread prev p =
     \<lparr>crossfaderValue = (case p_crossfaderValue p of None \<Rightarrow> crossfaderValue prev | Some v \<Rightarrow> v),
      crossfaderCurve = (case p_crossfaderCurve p of None \<Rightarrow> crossfaderCurve prev | Some v \<Rightarrow> v),
      deckA = (case p_deckA p of None \<Rightarrow> deckA prev | Some v \<Rightarrow> v),
      deckB = (case p_deckB p of None \<Rightarrow> deckB prev | Some v \<Rightarrow> v),
      master = (case p_master p of None \<Rightarrow> master prev | Some v \<Rightarrow> v),
      audioEngineStarted =
        (case p_audioEngineStarted p of None \<Rightarrow> audioEngineStarted prev | Some v \<Rightarrow> v),
      isMidiConnected =
        (case p_isMidiConnected p of None \<Rightarrow> isMidiConnected prev | Some v \<Rightarrow> v)\<rparr>"

text \<open>\<open>set({ crossfaderValue: clampedValue })\<close> on the store state.\<close>

definition setCrossfader :: "real \<Rightarrow> DJStoreState \<Rightarrow> DJStoreState" where
  "setCrossfader v s = (let clampedValue = max 0 (min 1 v) in s\<lparr>crossfaderValue := clampedValue\<rparr>)"

text \<open>
  \<open>useDJStore.setState(updates)\<close>: the store library merges the given properties into the
  current state, one level deep.
\<close>

definition applyStateUpdate :: "PartialDJStoreState \<Rightarrow> DJStoreState \<Rightarrow> DJStoreState" where
  "applyStateUpdate updates s = spread s updates"


section \<open>Secondary surface (src/components/ProjectorView.tsx)\<close>

text \<open>The mirrored state is passed in and the state after \<open>setState\<close> is returned.\<close>

fun handleBroadcastMessage :: "DJStoreState \<Rightarrow> BroadcastMessage \<Rightarrow> DJStoreState" where
  "handleBroadcastMessage prev (FULL_STATE payload) = payload"
| "handleBroadcastMessage prev (STATE_UPDATE payload) = spread prev payload"


section \<open>Controller input decoder (useMidiController, handleMidiMessage)\<close>

datatype Deck = A | B

text \<open>
  What one call of \<open>handleMidiMessage\<close> does: the callback it invokes, \<open>Unmapped\<close> when it
  reaches the final log line, \<open>Dropped\<close> when it returns at once on a message shorter
  than two bytes.
\<close>

datatype ControllerEvent =
    CrossfaderMove real
  | TransportToggle Deck
  | CueTrigger Deck
  | Unmapped
  | Dropped

definition noteOn :: "8 word \<Rightarrow> 8 word \<Rightarrow> ControllerEvent option" where
  "noteOn data1 channel =
     (case (if data1 = DECK_A_PLAY_NOTE
            then (if channel = 0 then Some (TransportToggle A)
                  else if channel = 1 then Some (TransportToggle B) else None)
            else None) of
        Some e \<Rightarrow> Some e
      | None \<Rightarrow>
         (if data1 = DECK_A_CUE_NOTE
          then (if channel = 0 then Some (CueTrigger A)
                else if channel = 1 then Some (CueTrigger B) else None)
          else None))"

definition handleMidiMessage :: "8 word list \<Rightarrow> ControllerEvent" where
  "handleMidiMessage data =
     (if length data < 2 then Dropped
      else
        let status = data ! 0;
            data1 = data ! 1;
            data2 = (if length data > 2 then data ! 2 else 0);
            messageType = status AND 0xf0;
            channel = status AND 0x0f
        in if messageType = 0xb0 \<and> data1 = CROSSFADER_CC
           then CrossfaderMove (midiToNormalized (real (unat data2)))
           else (case (if messageType = 0x90 \<and> data2 > 0 then noteOn data1 channel else None) of
                   Some e \<Rightarrow> e
                 | None \<Rightarrow> Unmapped))"


section \<open>Waveform analysis (waveform middleware)\<close>

subsection \<open>Rounding to binary64\<close>

text \<open>
  A JavaScript number is an IEEE 754 binary64 value, and each arithmetic operation returns the
  exact result rounded to the nearest such value, a tie going to the even significand.
  \<open>roundEven\<close> rounds a real number to the nearest integer in that way. \<open>binade x\<close> is the
  exponent \<open>e\<close> with \<open>2 powi e \<le> \<bar>x\<bar> < 2 powi (e + 1)\<close>, and \<open>- 1022\<close> for the subnormal
  numbers below \<open>2 powi (- 1022)\<close>, so that the binary64 values of that binade are the integer
  multiples of \<open>2 powi (binade x - 52)\<close>. \<open>fl x\<close> is the binary64 value that \<open>x\<close> rounds to.
  An overflow to infinity needs a magnitude of \<open>2 powi 1024\<close>, which no value below reaches:
  a sum of byte deviations is at most 128 times the buffer length.
\<close>

definition roundEven :: "real \<Rightarrow> int" where
  "roundEven r =
     (let f = \<lfloor>r\<rfloor>; d = r - of_int f
      in if d < 1 / 2 then f else if d > 1 / 2 then f + 1 else if even f then f else f + 1)"

definition binade :: "real \<Rightarrow> int" where
  "binade x = max \<lfloor>log 2 \<bar>x\<bar>\<rfloor> (- 1022)"

definition fl :: "real \<Rightarrow> real" where
  "fl x = (if x = 0 then 0
           else of_int (roundEven (x / 2 powi (binade x - 52))) * 2 powi (binade x - 52))"


subsection \<open>Waveform from audio bytes\<close>

text \<open>
  Each decimal literal of the source and each arithmetic operation on numbers is followed by
  \<open>fl\<close>. Lengths, indices and counts are integers below \<open>2 ^ 53\<close>, which binary64 holds
  exactly, and are kept as natural numbers; \<open>1 - threshold\<close> and \<open>1 - thresholdOutput\<close> are
  operations too.
\<close>

definition applyDynamicScaling :: "real \<Rightarrow> real" where
  "applyDynamicScaling v =
     (let threshold = fl 0.4;
          thresholdOutput = fl 0.15
      in if v < threshold then fl (fl (v / threshold) * thresholdOutput)
         else let normalizedAboveThreshold = fl (fl (v - threshold) / fl (1 - threshold))
              in fl (thresholdOutput + fl (normalizedAboveThreshold * fl (1 - thresholdOutput))))"

text \<open>\<open>audioBuffer[j] || 0\<close>: a read past the end of the buffer gives 0.\<close>

definition byteAt :: "8 word list \<Rightarrow> nat \<Rightarrow> real" where
  "byteAt audioBuffer j = (if j < length audioBuffer then real (unat (audioBuffer ! j)) else 0)"

text \<open>The body of the outer loop: the value pushed for the window from \<open>start\<close> up to \<open>stop\<close>
  (\<open>end\<close> in the source). The inner loop adds the deviations to \<open>sum\<close> one by one.\<close>

definition windowLevel :: "8 word list \<Rightarrow> nat \<Rightarrow> nat \<Rightarrow> real" where
  "windowLevel audioBuffer start stop =
     (let js = [start..<stop];
          sum = foldl (\<lambda>sum j. fl (sum + \<bar>byteAt audioBuffer j - 128\<bar>)) 0 js;
          count = length js;
          avg = (if count > 0 then fl (sum / real count) else 0)
      in min 1 (fl (avg / 80)))"

text \<open>
  \<open>Math.max\<close> and \<open>Math.min\<close> of no arguments are the infinities, so for an empty
  series the test \<open>max < 0.02\<close> succeeds and the empty series is returned.
\<close>

definition generateWaveformData :: "8 word list \<Rightarrow> nat \<Rightarrow> real list" where
  "generateWaveformData audioBuffer sampleCount =
     (let headerOffset = min 100 (nat \<lfloor>fl (real (length audioBuffer) * fl 0.01)\<rfloor>);
          dataLength = length audioBuffer - headerOffset;
          adjustedBytesPerSample = nat \<lfloor>fl (real dataLength / real sampleCount)\<rfloor>;
          waveform = map (\<lambda>i. let start = headerOffset + i * adjustedBytesPerSample;
                                   stop = min (start + adjustedBytesPerSample) (length audioBuffer)
                               in windowLevel audioBuffer start stop) [0..<sampleCount]
      in if waveform = [] then []
         else
           let mx = Max (set waveform);
               mn = Min (set waveform);
               range = fl (mx - mn)
           in if mx < fl 0.02 then map (\<lambda>_. 0) waveform
              else
                let normalized = (if range > fl 0.01 then map (\<lambda>v. fl (fl (v - mn) / range)) waveform
                                  else map (\<lambda>v. fl (v / mx)) waveform)
                in map applyDynamicScaling normalized)"


subsection \<open>Tempo detection\<close>

definition envelopeOf :: "real list \<Rightarrow> nat \<Rightarrow> real list" where
  "envelopeOf waveform windowSize =
     map (\<lambda>i. let js = [i - windowSize..<min (length waveform) (i + windowSize)];
                  sum = (\<Sum>j\<leftarrow>js. waveform ! j);
                  count = length js
              in sum / real count) [0..<length waveform]"

definition onsetsOf :: "real list \<Rightarrow> real list" where
  "onsetsOf envelope =
     map (\<lambda>i. let diff = envelope ! i - envelope ! (i - 1) in max 0 diff) [1..<length envelope]"

text \<open>
  One iteration of the autocorrelation loop, on the pair \<open>(bestLag, bestCorrelation)\<close>.
  At \<open>lag = 0\<close> the source divides by zero: \<open>bpmAtLag\<close> is infinite, the weighted
  correlation is minus infinity or NaN, and the comparison with \<open>bestCorrelation\<close> is
  false, so the pair is left as it is.
\<close>

definition lagStep :: "real \<Rightarrow> real list \<Rightarrow> nat \<Rightarrow> nat \<times> real \<Rightarrow> nat \<times> real" where
  "lagStep samplesPerSecond onsets lag best =
     (let idxs = [0..<length onsets - lag];
          sum = (\<Sum>i\<leftarrow>idxs. onsets ! i * onsets ! (i + lag));
          count = length idxs
      in if count > 0 then
           (if lag = 0 then best
            else
              let correlation = sum / real count;
                  bpmAtLag = (60 * samplesPerSecond) / real lag;
                  tempoWeight = 1 - \<bar>bpmAtLag - 125\<bar> / 200;
                  weighted = correlation * (1 + tempoWeight * 0.3)
              in if weighted > snd best then (lag, weighted) else best)
         else best)"

function lagLoop :: "real \<Rightarrow> real list \<Rightarrow> nat \<Rightarrow> nat \<Rightarrow> nat \<times> real \<Rightarrow> nat \<times> real" where
  "lagLoop samplesPerSecond onsets maxLag lag best =
     (if lag \<le> maxLag \<and> real lag < real (length onsets) / 2
      then lagLoop samplesPerSecond onsets maxLag (lag + 1) (lagStep samplesPerSecond onsets lag best)
      else best)"
  by pat_completeness auto
termination
  by (relation "measure (\<lambda>(samplesPerSecond, onsets, maxLag, lag, best). Suc maxLag - lag)") auto

text \<open>\<open>Math.round\<close> rounds to the nearest integer, a half upwards.\<close>

definition mathRound :: "real \<Rightarrow> int" where
  "mathRound x = \<lfloor>x + 1 / 2\<rfloor>"

definition detectBPM :: "real list \<Rightarrow> real \<Rightarrow> int" where
  "detectBPM waveform durationSeconds =
     (if length waveform < 100 \<or> durationSeconds < 10 then 0
      else
        let samplesPerSecond = real (length waveform) / durationSeconds;
            minBPM = (60 :: real);
            maxBPM = (180 :: real);
            minLag = nat \<lfloor>(60 / maxBPM) * samplesPerSecond\<rfloor>;
            maxLag = nat \<lfloor>(60 / minBPM) * samplesPerSecond\<rfloor>;
            windowSize = max 3 (nat \<lfloor>samplesPerSecond / 20\<rfloor>);
            envelope = envelopeOf waveform windowSize;
            onsets = onsetsOf envelope;
            bestLag = fst (lagLoop samplesPerSecond onsets maxLag minLag (0, 0))
        in if bestLag = 0 then 0
           else let bpm = (60 * samplesPerSecond) / real bestLag in mathRound bpm)"


subsection \<open>Synthetic waveform\<close>

text \<open>
  The identifier (\<open>videoId\<close> in the source, \<open>duration\<close> likewise renamed) is optional;
  \<open>if (videoId)\<close> skips the hash for an absent identifier and for the empty string. \<open>charCodeAt\<close> is read off the characters of the string.
\<close>

definition seedOf :: "real \<Rightarrow> string option \<Rightarrow> real" where
  "seedOf durationSeconds trackId =
     (case trackId of
        None \<Rightarrow> durationSeconds * 1000
      | Some s \<Rightarrow>
          foldl (\<lambda>seed i. seed + real (of_char (s ! i) :: nat) * real (i + 1) * 127)
            (durationSeconds * 1000) [0..<length s])"

definition random :: "real \<Rightarrow> real \<Rightarrow> real" where
  "random seed x =
     (let val = sin (x * 12.9898 + seed * 78.233) * 43758.5453
      in val - real_of_int \<lfloor>val\<rfloor>)"

text \<open>The body of the loop: the value pushed for index \<open>i\<close>.\<close>

definition syntheticSample :: "nat \<Rightarrow> real \<Rightarrow> nat \<Rightarrow> real" where
  "syntheticSample samples seed i =
     (let t = real i / real samples;
          base = (if t < 0.05 then t * 7
                  else if t > 0.95 then (1 - t) * 7
                  else 0.35 + 0.15 * sin (t * pi));
          wave1 = sin (t * 47 + seed * 0.01) * 0.12;
          wave2 = sin (t * 113 + seed * 0.007) * 0.08;
          wave3 = sin (t * 211 + seed * 0.003) * 0.06;
          noise = (random seed (real i) - 0.5) * 0.25;
          value0 = base + wave1 + wave2 + wave3 + noise;
          value1 = max 0.08 (min 1 \<bar>value0\<bar>);
          beatPattern = random seed (real i * 0.1);
          value2 = (if beatPattern > 0.85 then min 1 (value1 * (1.2 + beatPattern * 0.5))
                    else value1);
          section = \<lfloor>t * 8\<rfloor> mod 4
      in if section = 2 \<or> section = 3 then value2 * 1.1 else value2)"

definition generateSyntheticWaveform :: "nat \<Rightarrow> real \<Rightarrow> string option \<Rightarrow> real list" where
  "generateSyntheticWaveform samples durationSeconds trackId =
     (let seed = seedOf durationSeconds trackId
      in map (syntheticSample samples seed) [0..<samples])"


section \<open>Example inputs\<close>

text \<open>The patch \<open>{ deckA: { playing: true } }\<close>.\<close>

definition playingPatch :: PartialDJStoreState where
  "playingPatch =
     \<lparr>p_crossfaderValue = None, p_crossfaderCurve = None,
      p_deckA = Some \<lparr>videoId = None, title = None, artist = None, playing = Some True,
        lyrics = None, deck_eq = None, gain = None, filter_pos = None, currentTime = None,
        duration = None, seekTo = None, playbackRate = None\<rparr>,
      p_deckB = None, p_master = None, p_audioEngineStarted = None, p_isMidiConnected = None\<rparr>"

text \<open>A series of 100 samples, silent except for two rising samples in the middle.\<close>

definition stepSeries :: "real list" where
  "stepSeries = replicate 50 0 @ [1 / 2, 1] @ replicate 48 0"

text \<open>
  A buffer of ten bytes: nine bytes at a deviation of 4 and one silent byte. With two samples
  its window levels are 0.05 and 0.04 in binary64, and their rounded difference is just above
  the threshold 0.01 of the source.
\<close>

definition stepBuffer :: "8 word list" where
  "stepBuffer = [132, 132, 132, 132, 132, 132, 132, 132, 132, 128]"



section \<open>Auxiliary definitions\<close>

text \<open>The series of window levels that the first loop of \<open>generateWaveformData\<close> builds.\<close>

definition windowLevels :: "8 word list \<Rightarrow> nat \<Rightarrow> real list" where
  "windowLevels buf n =
     (let headerOffset = min 100 (nat \<lfloor>fl (real (length buf) * fl 0.01)\<rfloor>);
          per = nat \<lfloor>fl (real (length buf - headerOffset) / real n)\<rfloor>
      in map (\<lambda>i. windowLevel buf (headerOffset + i * per)
                   (min (headerOffset + i * per + per) (length buf))) [0..<n])"

text \<open>
  Partial sums of the sine series, term by term: \<open>sinSum k x x 1\<close> is the sum of the first
  \<open>k\<close> non-zero terms. \<open>sinSumI\<close> computes a lower and an upper bound of the same sum,
  rounding each term outwards to 18 decimal places.
\<close>

fun sinSum :: "nat \<Rightarrow> real \<Rightarrow> real \<Rightarrow> nat \<Rightarrow> real" where
  "sinSum 0 x t d = 0"
| "sinSum (Suc k) x t d = t + sinSum k x (- t * x * x / (real (d + 1) * real (d + 2))) (d + 2)"

definition roundDown :: "real \<Rightarrow> real" where
  "roundDown r = real_of_int \<lfloor>r * 10 ^ 18\<rfloor> / 10 ^ 18"

definition roundUp :: "real \<Rightarrow> real" where
  "roundUp r = real_of_int \<lceil>r * 10 ^ 18\<rceil> / 10 ^ 18"

fun sinSumI :: "nat \<Rightarrow> real \<Rightarrow> real \<Rightarrow> real \<Rightarrow> nat \<Rightarrow> real \<Rightarrow> real \<Rightarrow> real \<times> real" where
  "sinSumI 0 x l u d al au = (al, au)"
| "sinSumI (Suc k) x l u d al au =
     sinSumI k x (roundDown (- u * (x * x / (real (d + 1) * real (d + 2)))))
                 (roundUp (- l * (x * x / (real (d + 1) * real (d + 2)))))
                 (d + 2) (al + l) (au + u)"


section \<open>Crossfader properties\<close>

text \<open>
  Claim C1. For every curve mode and every position \<open>p\<close> in \<open>[0,1]\<close>, \<open>applyCurve\<close> returns
  volumeA = 1 and volumeB = 2p when \<open>p \<le> 1/2\<close>, and volumeA = 2(1 - p) and volumeB = 1 when
  \<open>p > 1/2\<close>; one of the two volumes is always 1, and the curve mode does not change the result.
\<close>

theorem applyCurve_center_full:
  assumes "0 \<le> p" and "p \<le> 1"
  shows "(p \<le> 1 / 2 \<longrightarrow>
            deckAVolume (applyCurve p c) = 1 \<and> deckBVolume (applyCurve p c) = 2 * p)
       \<and> (p > 1 / 2 \<longrightarrow>
            deckAVolume (applyCurve p c) = 2 * (1 - p) \<and> deckBVolume (applyCurve p c) = 1)
       \<and> (deckAVolume (applyCurve p c) = 1 \<or> deckBVolume (applyCurve p c) = 1)
       \<and> applyCurve p Linear = applyCurve p Cut"
  using assms by (simp add: applyCurve_def applyCenterFullCurve_def Let_def)

theorem applyCurve_center_full_witness:
  "(0::real) \<le> 1 / 4 \<and> (1 / 4 :: real) \<le> 1 / 2
     \<and> deckAVolume (applyCurve (1 / 4) Cut) = 1 \<and> deckBVolume (applyCurve (1 / 4) Cut) = 1 / 2
     \<and> (3 / 4 :: real) > 1 / 2 \<and> (3 / 4 :: real) \<le> 1
     \<and> deckAVolume (applyCurve (3 / 4) Linear) = 1 / 2 \<and> deckBVolume (applyCurve (3 / 4) Linear) = 1"
proof -
  have lo: "(0::real) \<le> 1 / 4" "(1 / 4 :: real) \<le> 1" by simp_all
  have hi: "(0::real) \<le> 3 / 4" "(3 / 4 :: real) \<le> 1" by simp_all
  from applyCurve_center_full [OF lo, of Cut] applyCurve_center_full [OF hi, of Linear]
  show ?thesis by auto
qed

text \<open>
  Claim C2. For every position \<open>p\<close> in \<open>[0,1]\<close> and every curve mode the two opacities add up to 1
  and each is its volume divided by the sum of the volumes (which is at least 1 there); where the
  curve function is given a value whose volumes add up to 0, both opacities are 1/2.
\<close>

theorem applyCurve_opacity:
  assumes "0 \<le> p" and "p \<le> 1"
  shows "deckAOpacity (applyCurve p c) + deckBOpacity (applyCurve p c) = 1
       \<and> deckAVolume (applyCurve p c) + deckBVolume (applyCurve p c) \<ge> 1
       \<and> (deckAVolume (applyCurve p c) + deckBVolume (applyCurve p c) \<noteq> 0 \<longrightarrow>
            deckAOpacity (applyCurve p c)
              = deckAVolume (applyCurve p c) / (deckAVolume (applyCurve p c) + deckBVolume (applyCurve p c))
          \<and> deckBOpacity (applyCurve p c)
              = deckBVolume (applyCurve p c) / (deckAVolume (applyCurve p c) + deckBVolume (applyCurve p c)))
       \<and> (deckAVolume (applyCenterFullCurve v) + deckBVolume (applyCenterFullCurve v) = 0 \<longrightarrow>
            deckAOpacity (applyCenterFullCurve v) = 1 / 2
          \<and> deckBOpacity (applyCenterFullCurve v) = 1 / 2)"
  using assms by (simp add: applyCurve_def applyCenterFullCurve_def Let_def add_divide_distrib [symmetric])

theorem applyCurve_opacity_witness:
  "(0::real) \<le> 1 / 4 \<and> (1 / 4 :: real) \<le> 1
     \<and> deckAVolume (applyCurve (1 / 4) Linear) + deckBVolume (applyCurve (1 / 4) Linear) \<noteq> 0
     \<and> deckAOpacity (applyCurve (1 / 4) Linear) = 2 / 3
     \<and> deckBOpacity (applyCurve (1 / 4) Linear) = 1 / 3
     \<and> deckAVolume (applyCenterFullCurve (- 1 / 2)) + deckBVolume (applyCenterFullCurve (- 1 / 2)) = 0
     \<and> deckAOpacity (applyCenterFullCurve (- 1 / 2)) = 1 / 2
     \<and> deckBOpacity (applyCenterFullCurve (- 1 / 2)) = 1 / 2"
  using applyCurve_opacity [of "1 / 4" Linear "- 1 / 2"]
  by (simp add: applyCurve_def applyCenterFullCurve_def Let_def)


section \<open>Decoder properties\<close>

text \<open>
  Claim C7. The decoder turns \<open>[0xB0, 51, 127]\<close> into a crossfader move to 1,
  \<open>[0x90, 11, 100]\<close> into a transport toggle of deck A, and classifies \<open>[0x90, 11, 0]\<close>
  (note-on with velocity 0) as unmapped.
\<close>

theorem decoder_examples:
  "handleMidiMessage [0xB0, 51, 127] = CrossfaderMove 1
   \<and> handleMidiMessage [0x90, 11, 100] = TransportToggle A
   \<and> handleMidiMessage [0x90, 11, 0] = Unmapped"
  by (simp add: handleMidiMessage_def noteOn_def midiToNormalized_def
        CROSSFADER_CC_def DECK_A_PLAY_NOTE_def DECK_A_CUE_NOTE_def Let_def)


section \<open>Synchronisation properties\<close>

lemma midiToNormalized_range: "0 \<le> midiToNormalized x \<and> midiToNormalized x \<le> 1"
  by (simp add: midiToNormalized_def)

lemma handleMidiMessage_CrossfaderMove:
  "handleMidiMessage data = CrossfaderMove x \<Longrightarrow>
     length data \<ge> 2 \<and> x = midiToNormalized (real (unat (if length data > 2 then data ! 2 else 0)))"
  by (auto simp: handleMidiMessage_def noteOn_def Let_def split: if_splits option.splits)

text \<open>
  Claim C3, as stated, fails: a received \<open>FULL_STATE\<close> or \<open>STATE_UPDATE\<close>, and
  \<open>applyStateUpdate\<close> on the store, write an out-of-range crossfader value as it comes.
\<close>

theorem crossfader_sync_unclamped:
  "\<not> (crossfaderValue (handleBroadcastMessage DEFAULT_DJ_STATE
          (FULL_STATE (DEFAULT_DJ_STATE\<lparr>crossfaderValue := 2\<rparr>))) \<le> 1)
   \<and> \<not> (0 \<le> crossfaderValue (handleBroadcastMessage DEFAULT_DJ_STATE
          (STATE_UPDATE \<lparr>p_crossfaderValue = Some (- 1), p_crossfaderCurve = None, p_deckA = None,
             p_deckB = None, p_master = None, p_audioEngineStarted = None,
             p_isMidiConnected = None\<rparr>)))
   \<and> \<not> (crossfaderValue (applyStateUpdate
          \<lparr>p_crossfaderValue = Some 2, p_crossfaderCurve = None, p_deckA = None,
             p_deckB = None, p_master = None, p_audioEngineStarted = None,
             p_isMidiConnected = None\<rparr> DEFAULT_DJ_STATE) \<le> 1)"
  by (simp add: spread_def applyStateUpdate_def)

text \<open>
  Claim C3, amended. \<open>setCrossfader\<close> clamps its argument to \<open>[0,1]\<close> and the decoder's
  crossfader event carries a value in \<open>[0,1]\<close>. Applying a \<open>FULL_STATE\<close> or a \<open>STATE_UPDATE\<close>
  (and \<open>applyStateUpdate\<close>) stores the incoming crossfader value unchanged, and keeps the old
  one when the patch has none; \<open>applyCurve\<close> saturates whatever value it reads.
\<close>

theorem crossfader_write_boundaries:
  "(0 \<le> crossfaderValue (setCrossfader v s) \<and> crossfaderValue (setCrossfader v s) \<le> 1)
   \<and> (handleMidiMessage data = CrossfaderMove x \<longrightarrow> 0 \<le> x \<and> x \<le> 1)
   \<and> crossfaderValue (handleBroadcastMessage prev (FULL_STATE snapshot)) = crossfaderValue snapshot
   \<and> (p_crossfaderValue patch = Some w \<longrightarrow>
        crossfaderValue (handleBroadcastMessage prev (STATE_UPDATE patch)) = w
      \<and> crossfaderValue (applyStateUpdate patch s) = w)
   \<and> (p_crossfaderValue patch = None \<longrightarrow>
        crossfaderValue (handleBroadcastMessage prev (STATE_UPDATE patch)) = crossfaderValue prev
      \<and> crossfaderValue (applyStateUpdate patch s) = crossfaderValue s)
   \<and> applyCurve u c = applyCurve (max 0 (min 1 u)) c"
proof -
  have "handleMidiMessage data = CrossfaderMove x \<longrightarrow> 0 \<le> x \<and> x \<le> 1"
    using handleMidiMessage_CrossfaderMove [of data x] midiToNormalized_range by blast
  moreover have "applyCurve u c = applyCurve (max 0 (min 1 u)) c"
    by (simp add: applyCurve_def Let_def)
  ultimately show ?thesis
    by (simp add: setCrossfader_def applyStateUpdate_def spread_def Let_def)
qed

theorem crossfader_write_boundaries_witness:
  "handleMidiMessage [0xB0, 51, 64] = CrossfaderMove (64 / 127)
   \<and> (0::real) \<le> 64 / 127 \<and> (64 / 127 :: real) \<le> 1
   \<and> crossfaderValue (setCrossfader 7 DEFAULT_DJ_STATE) = 1
   \<and> crossfaderValue (handleBroadcastMessage DEFAULT_DJ_STATE
        (STATE_UPDATE \<lparr>p_crossfaderValue = Some 3, p_crossfaderCurve = None, p_deckA = None,
           p_deckB = None, p_master = None, p_audioEngineStarted = None,
           p_isMidiConnected = None\<rparr>)) = 3
   \<and> crossfaderValue (handleBroadcastMessage DEFAULT_DJ_STATE
        (STATE_UPDATE \<lparr>p_crossfaderValue = None, p_crossfaderCurve = Some Cut, p_deckA = None,
           p_deckB = None, p_master = None, p_audioEngineStarted = None,
           p_isMidiConnected = None\<rparr>)) = 1 / 2"
proof -
  have d: "handleMidiMessage [0xB0, 51, 64] = CrossfaderMove (64 / 127)"
    by (simp add: handleMidiMessage_def midiToNormalized_def CROSSFADER_CC_def Let_def)
  have p1: "p_crossfaderValue \<lparr>p_crossfaderValue = Some (3::real), p_crossfaderCurve = None, p_deckA = None,
           p_deckB = None, p_master = None, p_audioEngineStarted = None,
           p_isMidiConnected = None\<rparr> = Some 3" by simp
  have p2: "p_crossfaderValue \<lparr>p_crossfaderValue = None, p_crossfaderCurve = Some Cut, p_deckA = None,
           p_deckB = None, p_master = None, p_audioEngineStarted = None,
           p_isMidiConnected = None\<rparr> = None" by simp
  from d p1 p2
    crossfader_write_boundaries [of 7 DEFAULT_DJ_STATE "[0xB0, 51, 64]" "64 / 127" DEFAULT_DJ_STATE
      DEFAULT_DJ_STATE "\<lparr>p_crossfaderValue = Some 3, p_crossfaderCurve = None, p_deckA = None,
           p_deckB = None, p_master = None, p_audioEngineStarted = None,
           p_isMidiConnected = None\<rparr>" 3]
    crossfader_write_boundaries [of 7 DEFAULT_DJ_STATE "[0xB0, 51, 64]" "64 / 127" DEFAULT_DJ_STATE
      DEFAULT_DJ_STATE "\<lparr>p_crossfaderValue = None, p_crossfaderCurve = Some Cut, p_deckA = None,
           p_deckB = None, p_master = None, p_audioEngineStarted = None,
           p_isMidiConnected = None\<rparr>" 3]
  show ?thesis
    by (simp add: setCrossfader_def DEFAULT_DJ_STATE_def)
qed

text \<open>
  Claim C8. Applying a \<open>STATE_UPDATE\<close> leaves every top-level field that is absent from the
  patch unchanged; applying a \<open>FULL_STATE\<close> replaces the mirrored state by the snapshot.
  The witness is the patch \<open>{ deckA: { playing: true } }\<close>.
\<close>

theorem state_update_frame:
  "(p_crossfaderValue p = None \<longrightarrow>
      crossfaderValue (handleBroadcastMessage s (STATE_UPDATE p)) = crossfaderValue s)
   \<and> (p_crossfaderCurve p = None \<longrightarrow>
      crossfaderCurve (handleBroadcastMessage s (STATE_UPDATE p)) = crossfaderCurve s)
   \<and> (p_deckA p = None \<longrightarrow> deckA (handleBroadcastMessage s (STATE_UPDATE p)) = deckA s)
   \<and> (p_deckB p = None \<longrightarrow> deckB (handleBroadcastMessage s (STATE_UPDATE p)) = deckB s)
   \<and> (p_master p = None \<longrightarrow> master (handleBroadcastMessage s (STATE_UPDATE p)) = master s)
   \<and> (p_audioEngineStarted p = None \<longrightarrow>
      audioEngineStarted (handleBroadcastMessage s (STATE_UPDATE p)) = audioEngineStarted s)
   \<and> (p_isMidiConnected p = None \<longrightarrow>
      isMidiConnected (handleBroadcastMessage s (STATE_UPDATE p)) = isMidiConnected s)
   \<and> handleBroadcastMessage s (FULL_STATE snapshot) = snapshot"
  by (simp add: spread_def)

theorem state_update_frame_witness:
  "p_crossfaderValue playingPatch = None \<and> p_crossfaderCurve playingPatch = None
   \<and> p_deckB playingPatch = None \<and> p_master playingPatch = None
   \<and> p_audioEngineStarted playingPatch = None \<and> p_isMidiConnected playingPatch = None
   \<and> crossfaderValue (handleBroadcastMessage DEFAULT_DJ_STATE (STATE_UPDATE playingPatch)) = 1 / 2
   \<and> crossfaderCurve (handleBroadcastMessage DEFAULT_DJ_STATE (STATE_UPDATE playingPatch)) = Linear
   \<and> deckB (handleBroadcastMessage DEFAULT_DJ_STATE (STATE_UPDATE playingPatch)) = DEFAULT_DECK_STATE
   \<and> master (handleBroadcastMessage DEFAULT_DJ_STATE (STATE_UPDATE playingPatch)) = DEFAULT_MASTER
   \<and> \<not> audioEngineStarted (handleBroadcastMessage DEFAULT_DJ_STATE (STATE_UPDATE playingPatch))
   \<and> \<not> isMidiConnected (handleBroadcastMessage DEFAULT_DJ_STATE (STATE_UPDATE playingPatch))"
  using state_update_frame [of playingPatch DEFAULT_DJ_STATE]
  by (simp add: playingPatch_def DEFAULT_DJ_STATE_def)

text \<open>
  Claim C10. A \<open>STATE_UPDATE\<close> whose patch holds a deck record \<open>d\<close> for deck A makes the mirrored
  deck A exactly \<open>d\<close>: a property absent from \<open>d\<close>, such as \<open>videoId\<close> or \<open>title\<close>, is absent
  afterwards, whatever the previous deck record held.
\<close>

theorem state_update_replaces_deck:
  assumes "p_deckA p = Some d"
  shows "deckA (handleBroadcastMessage s (STATE_UPDATE p)) = d
       \<and> videoId (deckA (handleBroadcastMessage s (STATE_UPDATE p))) = videoId d
       \<and> title (deckA (handleBroadcastMessage s (STATE_UPDATE p))) = title d"
  using assms by (simp add: spread_def)

theorem state_update_replaces_deck_witness:
  "p_deckA playingPatch = Some (the (p_deckA playingPatch))
   \<and> videoId (deckA DEFAULT_DJ_STATE) = Some ''''
   \<and> videoId (deckA (handleBroadcastMessage DEFAULT_DJ_STATE (STATE_UPDATE playingPatch))) = None
   \<and> title (deckA (handleBroadcastMessage DEFAULT_DJ_STATE (STATE_UPDATE playingPatch))) = None
   \<and> playing (deckA (handleBroadcastMessage DEFAULT_DJ_STATE (STATE_UPDATE playingPatch))) = Some True"
proof -
  have h: "p_deckA playingPatch = Some (the (p_deckA playingPatch))"
    by (simp add: playingPatch_def)
  from state_update_replaces_deck [OF h, of DEFAULT_DJ_STATE] h show ?thesis
    by (simp add: playingPatch_def DEFAULT_DJ_STATE_def DEFAULT_DECK_STATE_def)
qed


section \<open>Waveform extraction properties\<close>

subsection \<open>Properties of the rounding\<close>

lemma roundEven_range: "\<lfloor>r\<rfloor> \<le> roundEven r \<and> roundEven r \<le> \<lfloor>r\<rfloor> + 1"
  by (simp add: roundEven_def Let_def)

lemma roundEven_of_int: "roundEven (of_int z) = z"
  by (simp add: roundEven_def Let_def)

lemma roundEven_mono:
  assumes "r \<le> s"
  shows "roundEven r \<le> roundEven s"
proof (cases "\<lfloor>r\<rfloor> = \<lfloor>s\<rfloor>")
  case True
  have "r - of_int \<lfloor>r\<rfloor> \<le> s - of_int \<lfloor>s\<rfloor>" using assms True by simp
  then show ?thesis using True by (auto simp: roundEven_def Let_def)
next
  case False
  have "\<lfloor>r\<rfloor> \<le> \<lfloor>s\<rfloor>" using assms by (rule floor_mono)
  with False have "\<lfloor>r\<rfloor> + 1 \<le> \<lfloor>s\<rfloor>" by simp
  then show ?thesis
    using roundEven_range [of r] roundEven_range [of s] by linarith
qed

lemma roundEven_err: "\<bar>of_int (roundEven r) - r\<bar> \<le> 1 / 2"
proof -
  have "of_int \<lfloor>r\<rfloor> \<le> r" "r < of_int \<lfloor>r\<rfloor> + 1" by linarith+
  then show ?thesis by (auto simp: roundEven_def Let_def)
qed

lemma two_powi_pos: "0 < (2 :: real) powi k"
  by simp

lemma two_powr_powi: "(2 :: real) powr real_of_int k = 2 powi k"
  by (rule powr_real_of_int') simp_all

lemma two_powi_52: "(2 :: real) powi (k - 52) * 2 ^ 52 = 2 powi k"
proof -
  have "(2 :: real) powi ((k - 52) + 52) = 2 powi (k - 52) * 2 powi 52"
    by (rule power_int_add) simp
  moreover have "(k - 52) + 52 = k" by simp
  moreover have "(2 :: real) powi 52 = 2 ^ 52" by simp
  ultimately show ?thesis by (simp only:)
qed

lemma two_powi_53: "(2 :: real) powi (k - 52) * 2 ^ 53 = 2 powi (k + 1)"
proof -
  have "(2 :: real) powi ((k - 52) + 53) = 2 powi (k - 52) * 2 powi 53"
    by (rule power_int_add) simp
  moreover have "(k - 52) + 53 = k + 1" by simp
  moreover have "(2 :: real) powi 53 = 2 ^ 53" by simp
  ultimately show ?thesis by (simp only:)
qed

lemma binade_ge: "- 1022 \<le> binade x"
  by (simp add: binade_def)

lemma binade_upper:
  assumes "0 < x"
  shows "x < 2 powi (binade x + 1)"
proof -
  have "x < 2 powr (real_of_int \<lfloor>log 2 x\<rfloor> + 1)"
    using floor_log_eq_powr_iff [of x 2 "\<lfloor>log 2 x\<rfloor>"] assms by simp
  also have "\<dots> = 2 powi (\<lfloor>log 2 x\<rfloor> + 1)"
    using two_powr_powi [of "\<lfloor>log 2 x\<rfloor> + 1"] by simp
  also have "\<dots> \<le> 2 powi (binade x + 1)"
    using assms by (intro power_int_increasing) (simp_all add: binade_def)
  finally show ?thesis .
qed

lemma binade_lower:
  assumes "0 < x" and "- 1022 < binade x"
  shows "2 powi (binade x) \<le> x"
proof -
  have b: "binade x = \<lfloor>log 2 x\<rfloor>" using assms by (simp add: binade_def max_def split: if_splits)
  have "2 powr (real_of_int \<lfloor>log 2 x\<rfloor>) \<le> x"
    using floor_log_eq_powr_iff [of x 2 "\<lfloor>log 2 x\<rfloor>"] assms by simp
  then show ?thesis unfolding b two_powr_powi .
qed

lemma binade_mono:
  assumes "0 < x" and "x \<le> y"
  shows "binade x \<le> binade y"
proof -
  have "log 2 x \<le> log 2 y" using assms by simp
  then have "\<lfloor>log 2 x\<rfloor> \<le> \<lfloor>log 2 y\<rfloor>" by (rule floor_mono)
  then show ?thesis using assms by (simp add: binade_def)
qed

lemma binade_eq:
  assumes "2 powi e \<le> x" and "x < 2 powi (e + 1)" and "- 1022 \<le> e"
  shows "binade x = e"
proof -
  have pos: "0 < x" using assms(1) two_powi_pos [of e] by linarith
  have "\<lfloor>log 2 x\<rfloor> = e"
    using floor_log_eq_powr_iff [of x 2 e] pos assms(1,2) two_powr_powi [of e] two_powr_powi [of "e + 1"]
    by simp
  then show ?thesis using pos assms(3) by (simp add: binade_def)
qed

lemma fl_0: "fl 0 = 0"
  by (simp add: fl_def)

lemma fl_nonneg:
  assumes "0 \<le> x"
  shows "0 \<le> fl x"
proof (cases "x = 0")
  case True
  then show ?thesis by (simp add: fl_def)
next
  case False
  have "0 \<le> x / 2 powi (binade x - 52)" using assms by simp
  then have "0 \<le> \<lfloor>x / 2 powi (binade x - 52)\<rfloor>" by simp
  then have "0 \<le> roundEven (x / 2 powi (binade x - 52))"
    using roundEven_range [of "x / 2 powi (binade x - 52)"] by linarith
  then show ?thesis using False by (simp add: fl_def)
qed

lemma fl_le_pow:
  assumes "0 < x"
  shows "fl x \<le> 2 powi (binade x + 1)"
proof -
  define s :: real where "s = 2 powi (binade x - 52)"
  have s: "0 < s" by (simp add: s_def)
  have top: "s * 2 ^ 53 = 2 powi (binade x + 1)"
    unfolding s_def by (rule two_powi_53)
  have "x < s * 2 ^ 53"
    using binade_upper [OF assms] by (simp only: top)
  then have "x / s \<le> 2 ^ 53"
    using s by (simp add: field_simps)
  moreover have "real_of_int (2 ^ 53) = 2 ^ 53" by simp
  ultimately have "x / s \<le> real_of_int (2 ^ 53)" by (simp only:)
  then have "roundEven (x / s) \<le> roundEven (real_of_int (2 ^ 53))" by (rule roundEven_mono)
  then have "roundEven (x / s) \<le> 2 ^ 53" by (simp only: roundEven_of_int)
  then have "real_of_int (roundEven (x / s)) \<le> real_of_int (2 ^ 53)" by (simp only: of_int_le_iff)
  then have "real_of_int (roundEven (x / s)) * s \<le> real_of_int (2 ^ 53) * s"
    using s by (intro mult_right_mono) simp_all
  moreover have "real_of_int (2 ^ 53) * s = s * 2 ^ 53" by simp
  moreover have "fl x = real_of_int (roundEven (x / s)) * s"
    using assms by (simp add: fl_def s_def)
  ultimately show ?thesis using top by linarith
qed

lemma fl_ge_pow:
  assumes "0 < x" and "- 1022 < binade x"
  shows "2 powi (binade x) \<le> fl x"
proof -
  define s :: real where "s = 2 powi (binade x - 52)"
  have s: "0 < s" by (simp add: s_def)
  have bot: "s * 2 ^ 52 = 2 powi (binade x)"
    unfolding s_def by (rule two_powi_52)
  have "s * 2 ^ 52 \<le> x"
    using binade_lower [OF assms] by (simp only: bot)
  then have "2 ^ 52 \<le> x / s"
    using s by (simp add: field_simps)
  moreover have "real_of_int (2 ^ 52) = 2 ^ 52" by simp
  ultimately have "real_of_int (2 ^ 52) \<le> x / s" by (simp only:)
  then have "roundEven (real_of_int (2 ^ 52)) \<le> roundEven (x / s)" by (rule roundEven_mono)
  then have "2 ^ 52 \<le> roundEven (x / s)" by (simp only: roundEven_of_int)
  then have "real_of_int (2 ^ 52) \<le> real_of_int (roundEven (x / s))" by (simp only: of_int_le_iff)
  then have "real_of_int (2 ^ 52) * s \<le> real_of_int (roundEven (x / s)) * s"
    using s by (intro mult_right_mono) simp_all
  moreover have "real_of_int (2 ^ 52) * s = s * 2 ^ 52" by simp
  moreover have "fl x = real_of_int (roundEven (x / s)) * s"
    using assms by (simp add: fl_def s_def)
  ultimately show ?thesis using bot by linarith
qed

lemma fl_mono_pos:
  assumes "0 < x" and "x \<le> y"
  shows "fl x \<le> fl y"
proof (cases "binade x = binade y")
  case True
  define s :: real where "s = 2 powi (binade x - 52)"
  have s: "0 < s" by (simp add: s_def)
  have "x / s \<le> y / s" using assms s by (simp add: divide_right_mono)
  then have "roundEven (x / s) \<le> roundEven (y / s)" by (rule roundEven_mono)
  then have "of_int (roundEven (x / s)) * s \<le> of_int (roundEven (y / s)) * s"
    using s by (simp add: mult_right_mono)
  then show ?thesis using assms True by (simp add: fl_def s_def)
next
  case False
  have y: "0 < y" using assms by linarith
  have lt: "binade x < binade y" using binade_mono [OF assms] False by simp
  then have "- 1022 < binade y" using binade_ge [of x] by linarith
  then have "2 powi (binade y) \<le> fl y" using y by (intro fl_ge_pow)
  moreover have "fl x \<le> 2 powi (binade x + 1)" using assms(1) by (rule fl_le_pow)
  moreover have "(2 :: real) powi (binade x + 1) \<le> 2 powi (binade y)"
    using lt by (intro power_int_increasing) simp_all
  ultimately show ?thesis by linarith
qed

lemma fl_mono:
  assumes "0 \<le> x" and "x \<le> y"
  shows "fl x \<le> fl y"
proof (cases "x = 0")
  case True
  then show ?thesis using fl_nonneg [of y] assms by (simp add: fl_0)
next
  case False
  then show ?thesis using assms by (intro fl_mono_pos) simp_all
qed

lemma fl_eval:
  assumes "2 powi e \<le> x" and "x < 2 powi (e + 1)" and "- 1022 \<le> e"
  shows "fl x = of_int (roundEven (x / 2 powi (e - 52))) * 2 powi (e - 52)"
proof -
  have "0 < x" using assms(1) two_powi_pos [of e] by linarith
  then show ?thesis using binade_eq [OF assms] by (simp add: fl_def)
qed

lemma fl_err:
  assumes "2 powi e \<le> x" and "x < 2 powi (e + 1)" and "- 1022 \<le> e"
  shows "\<bar>fl x - x\<bar> \<le> 2 powi (e - 52) / 2"
proof -
  define s :: real where "s = 2 powi (e - 52)"
  define a :: real where "a = real_of_int (roundEven (x / s))"
  have s: "0 < s" by (simp add: s_def)
  have "\<bar>a - x / s\<bar> \<le> 1 / 2" unfolding a_def by (rule roundEven_err)
  then have "\<bar>a - x / s\<bar> * s \<le> 1 / 2 * s"
    using s by (intro mult_right_mono) simp_all
  moreover have "\<bar>a - x / s\<bar> * s = \<bar>(a - x / s) * s\<bar>"
    using s by (simp add: abs_mult)
  moreover have "(a - x / s) * s = a * s - x"
    using s by (simp add: field_simps)
  moreover have "fl x = a * s"
    unfolding a_def s_def by (rule fl_eval [OF assms])
  ultimately have "\<bar>fl x - x\<bar> \<le> 1 / 2 * s" by (simp only:)
  then show ?thesis by (simp add: s_def)
qed

subsection \<open>Range and silence\<close>

lemma fl_value:
  assumes "2 powi e \<le> x" and "x < 2 powi (e + 1)" and "- 1022 \<le> e"
    and "roundEven (x / 2 powi (e - 52)) = m" and "of_int m * 2 powi (e - 52) = y"
  shows "fl x = y"
  using fl_eval [OF assms(1-3)] assms(4,5) by simp

lemma fl_1: "fl 1 = 1"
  by (rule fl_value [where e = 0 and m = "2 ^ 52"]) (simp_all add: roundEven_def)

lemma fl_half: "fl (1 / 2) = 1 / 2"
  by (rule fl_value [where e = "- 1" and m = "2 ^ 52"]) (simp_all add: roundEven_def)

lemma fl_quarter: "fl (1 / 4) = 1 / 4"
  by (rule fl_value [where e = "- 2" and m = "2 ^ 52"]) (simp_all add: roundEven_def)

lemma fl_eighth: "fl (1 / 8) = 1 / 8"
  by (rule fl_value [where e = "- 3" and m = "2 ^ 52"]) (simp_all add: roundEven_def)

lemma fl_64th: "fl (1 / 64) = 1 / 64"
  by (rule fl_value [where e = "- 6" and m = "2 ^ 52"]) (simp_all add: roundEven_def)

lemma fl_3_4: "fl (3 / 4) = 3 / 4"
  by (rule fl_value [where e = "- 1" and m = "3 * 2 ^ 51"]) (simp_all add: roundEven_def)

lemma fl_7_8: "fl (7 / 8) = 7 / 8"
  by (rule fl_value [where e = "- 1" and m = "7 * 2 ^ 50"]) (simp_all add: roundEven_def)

lemma fl_above_1: "fl (1 + 1 / 2 ^ 53) = 1"
  by (rule fl_value [where e = 0 and m = "2 ^ 52"]) (simp_all add: roundEven_def)


lemma fl_le_1: "0 \<le> x \<Longrightarrow> x \<le> 1 \<Longrightarrow> fl x \<le> 1"
  using fl_mono [of x 1] by (simp add: fl_1)

lemma threshold_bounds: "1 / 4 \<le> fl 0.4 \<and> fl 0.4 \<le> 1 / 2"
  using fl_mono [of "1 / 4" "0.4"] fl_mono [of "0.4" "1 / 2"] by (simp add: fl_quarter fl_half)

lemma thresholdOutput_bounds: "1 / 8 \<le> fl 0.15 \<and> fl 0.15 \<le> 1 / 4"
  using fl_mono [of "1 / 8" "0.15"] fl_mono [of "0.15" "1 / 4"] by (simp add: fl_eighth fl_quarter)

lemma silence_threshold_pos: "0 < fl 0.02"
  using fl_mono [of "1 / 64" "0.02"] by (simp add: fl_64th)

lemma fl_err_half:
  assumes "1 / 2 \<le> x" and "x < 1"
  shows "fl x \<le> x + 1 / 2 ^ 54"
proof -
  have "\<bar>fl x - x\<bar> \<le> 2 powi (- 1 - 52) / 2"
    using assms by (intro fl_err) simp_all
  moreover have "(2 :: real) powi (- 1 - 52) / 2 = 1 / 2 ^ 54" by simp
  ultimately show ?thesis by linarith
qed

lemma scaled_top:
  assumes "0 \<le> n" and "n \<le> 1"
  shows "fl (fl 0.15 + fl (n * fl (1 - fl 0.15))) \<le> 1"
proof -
  define w where "w = 1 - fl 0.15"
  have w: "3 / 4 \<le> w" "w \<le> 7 / 8" using thresholdOutput_bounds by (simp_all add: w_def)
  have c: "3 / 4 \<le> fl w" "fl w \<le> 7 / 8"
    using fl_mono [of "3 / 4" w] fl_mono [of w "7 / 8"] w by (simp_all add: fl_3_4 fl_7_8)
  have c1: "fl w \<le> w + 1 / 2 ^ 54" using w by (intro fl_err_half) simp_all
  have c2: "fl (fl w) \<le> fl w + 1 / 2 ^ 54" using c by (intro fl_err_half) simp_all
  have "0 \<le> n * fl w" using assms(1) c(1) by simp
  moreover have "n * fl w \<le> fl w" using assms(2) c(1) by (simp add: mult_left_le_one_le)
  ultimately have p: "0 \<le> fl (n * fl w)" "fl (n * fl w) \<le> fl (fl w)"
    by (simp_all add: fl_nonneg fl_mono)
  have "fl 0.15 + fl (n * fl w) \<le> 1 + 1 / 2 ^ 53"
    using p(2) c1 c2 by (simp add: w_def)
  moreover have "0 \<le> fl 0.15 + fl (n * fl w)"
    using p(1) thresholdOutput_bounds by linarith
  ultimately have "fl (fl 0.15 + fl (n * fl w)) \<le> fl (1 + 1 / 2 ^ 53)"
    by (intro fl_mono)
  then show ?thesis by (simp only: fl_above_1 w_def)
qed

lemma applyDynamicScaling_range:
  assumes "0 \<le> v" and "v \<le> 1"
  shows "0 \<le> applyDynamicScaling v \<and> applyDynamicScaling v \<le> 1"
proof (cases "v < fl 0.4")
  case True
  have t: "0 < fl 0.4" using threshold_bounds by linarith
  have "0 \<le> v / fl 0.4" "v / fl 0.4 \<le> 1" using assms True t by simp_all
  then have q: "0 \<le> fl (v / fl 0.4)" "fl (v / fl 0.4) \<le> 1"
    by (simp_all add: fl_nonneg fl_le_1)
  have "0 \<le> fl (v / fl 0.4) * fl 0.15" using q(1) thresholdOutput_bounds by simp
  moreover have "fl (v / fl 0.4) * fl 0.15 \<le> 1"
    using q thresholdOutput_bounds mult_mono [of "fl (v / fl 0.4)" 1 "fl 0.15" 1] by simp
  ultimately have "0 \<le> fl (fl (v / fl 0.4) * fl 0.15) \<and> fl (fl (v / fl 0.4) * fl 0.15) \<le> 1"
    by (simp add: fl_nonneg fl_le_1)
  with True show ?thesis by (simp add: applyDynamicScaling_def Let_def)
next
  case False
  define b where "b = fl (1 - fl 0.4)"
  have "1 / 2 \<le> 1 - fl 0.4" using threshold_bounds by simp
  then have b: "1 / 2 \<le> b" unfolding b_def using fl_mono [of "1 / 2" "1 - fl 0.4"] by (simp add: fl_half)
  have "0 \<le> v - fl 0.4" "v - fl 0.4 \<le> 1 - fl 0.4" using False assms by simp_all
  then have a: "0 \<le> fl (v - fl 0.4)" "fl (v - fl 0.4) \<le> b"
    unfolding b_def by (simp_all add: fl_nonneg fl_mono)
  have "0 \<le> fl (v - fl 0.4) / b" "fl (v - fl 0.4) / b \<le> 1" using a b by simp_all
  then have n: "0 \<le> fl (fl (v - fl 0.4) / b)" "fl (fl (v - fl 0.4) / b) \<le> 1"
    by (simp_all add: fl_nonneg fl_le_1)
  have top: "fl (fl 0.15 + fl (fl (fl (v - fl 0.4) / b) * fl (1 - fl 0.15))) \<le> 1"
    using n by (rule scaled_top)
  have "0 \<le> 1 - fl 0.15" using thresholdOutput_bounds by simp
  then have "0 \<le> fl (fl (v - fl 0.4) / b) * fl (1 - fl 0.15)"
    using n(1) by (simp add: fl_nonneg)
  then have "0 \<le> fl 0.15 + fl (fl (fl (v - fl 0.4) / b) * fl (1 - fl 0.15))"
    using thresholdOutput_bounds fl_nonneg [of "fl (fl (v - fl 0.4) / b) * fl (1 - fl 0.15)"]
    by linarith
  then have "0 \<le> fl (fl 0.15 + fl (fl (fl (v - fl 0.4) / b) * fl (1 - fl 0.15)))"
    by (rule fl_nonneg)
  with top False show ?thesis by (simp add: applyDynamicScaling_def Let_def b_def)
qed

lemma deviation_sum_nonneg:
  "0 \<le> acc \<Longrightarrow> 0 \<le> foldl (\<lambda>sum j. fl (sum + \<bar>byteAt buf j - 128\<bar>)) acc js"
proof (induction js arbitrary: acc)
  case Nil
  then show ?case by simp
next
  case (Cons j js)
  from Cons.prems have "0 \<le> acc + \<bar>byteAt buf j - 128\<bar>" by simp
  then have "0 \<le> fl (acc + \<bar>byteAt buf j - 128\<bar>)" by (rule fl_nonneg)
  then show ?case using Cons.IH by simp
qed

lemma deviation_sum_silence:
  "\<forall>j \<in> set js. \<bar>byteAt buf j - 128\<bar> = 0
     \<Longrightarrow> foldl (\<lambda>sum j. fl (sum + \<bar>byteAt buf j - 128\<bar>)) 0 js = 0"
  by (induction js) (simp_all add: fl_0)

lemma windowLevel_range: "0 \<le> windowLevel buf start stop \<and> windowLevel buf start stop \<le> 1"
proof -
  define total where
    "total = foldl (\<lambda>sum j. fl (sum + \<bar>byteAt buf j - 128\<bar>)) 0 [start..<stop]"
  define avg where "avg = (if length [start..<stop] > 0
      then fl (total / real (length [start..<stop])) else 0)"
  have "0 \<le> total" unfolding total_def by (rule deviation_sum_nonneg) simp
  then have "0 \<le> total / real (length [start..<stop])" by simp
  then have "0 \<le> fl (total / real (length [start..<stop]))" by (rule fl_nonneg)
  then have "0 \<le> avg" unfolding avg_def
    by (cases "length [start..<stop] > 0") (simp_all only: if_True if_False order_refl)
  then have "0 \<le> avg / 80" by simp
  then have "0 \<le> fl (avg / 80)" by (rule fl_nonneg)
  moreover have "windowLevel buf start stop = min 1 (fl (avg / 80))"
    by (simp only: windowLevel_def Let_def avg_def total_def)
  ultimately show ?thesis by simp
qed

lemma windowLevel_silence:
  assumes "\<forall>b \<in> set buf. b = 128" and "stop \<le> length buf"
  shows "windowLevel buf start stop = 0"
proof -
  have "\<bar>byteAt buf j - 128\<bar> = 0" if "j \<in> set [start..<stop]" for j
  proof -
    from that assms(2) have lt: "j < length buf" by simp
    then have "buf ! j \<in> set buf" by (rule nth_mem)
    with assms(1) have "buf ! j = 128" by blast
    with lt show ?thesis by (simp add: byteAt_def)
  qed
  then have "foldl (\<lambda>sum j. fl (sum + \<bar>byteAt buf j - 128\<bar>)) 0 [start..<stop] = 0"
    by (intro deviation_sum_silence ballI)
  then show ?thesis
    by (simp add: windowLevel_def Let_def fl_0)
qed

lemma generateWaveformData_unfold:
  "generateWaveformData buf n =
     (if windowLevels buf n = [] then []
      else if Max (set (windowLevels buf n)) < fl 0.02 then map (\<lambda>_. 0) (windowLevels buf n)
      else map applyDynamicScaling
        (if fl (Max (set (windowLevels buf n)) - Min (set (windowLevels buf n))) > fl 0.01
         then map (\<lambda>v. fl (fl (v - Min (set (windowLevels buf n)))
                      / fl (Max (set (windowLevels buf n)) - Min (set (windowLevels buf n)))))
                (windowLevels buf n)
         else map (\<lambda>v. fl (v / Max (set (windowLevels buf n)))) (windowLevels buf n)))"
  unfolding generateWaveformData_def windowLevels_def Let_def by (rule refl)

lemma windowLevels_length: "length (windowLevels buf n) = n"
  by (simp add: windowLevels_def Let_def)

lemma windowLevels_range: "w \<in> set (windowLevels buf n) \<Longrightarrow> 0 \<le> w \<and> w \<le> 1"
  using windowLevel_range by (auto simp: windowLevels_def Let_def)

lemma windowLevels_silence:
  assumes "\<forall>b \<in> set buf. b = 128"
  shows "windowLevels buf n = replicate n 0"
proof -
  have "windowLevels buf n = map (\<lambda>i. 0) [0..<n]"
    unfolding windowLevels_def Let_def
    by (intro map_cong refl windowLevel_silence [OF assms]) simp
  then show ?thesis by (simp add: map_replicate_const)
qed

lemma generateWaveformData_length:
  "length (generateWaveformData buf n) = n"
proof (cases "windowLevels buf n = []")
  case True
  then have "length (windowLevels buf n) = 0" by simp
  then have "n = 0" by (simp add: windowLevels_length)
  with True show ?thesis by (simp add: generateWaveformData_unfold)
next
  case False
  then show ?thesis by (simp add: generateWaveformData_unfold windowLevels_length)
qed

lemma normalized_range:
  fixes ws :: "real list"
  assumes nonneg: "\<forall>w \<in> set ws. 0 \<le> w"
    and big: "\<not> Max (set ws) < fl 0.02" and v: "v \<in> set ws"
  shows "fl (Max (set ws) - Min (set ws)) > fl 0.01 \<Longrightarrow>
           0 \<le> fl (fl (v - Min (set ws)) / fl (Max (set ws) - Min (set ws)))
         \<and> fl (fl (v - Min (set ws)) / fl (Max (set ws) - Min (set ws))) \<le> 1"
    and "0 \<le> fl (v / Max (set ws)) \<and> fl (v / Max (set ws)) \<le> 1"
proof -
  have le: "v \<le> Max (set ws)" and ge: "Min (set ws) \<le> v"
    using v by simp_all
  have pos: "0 < Max (set ws)" using big silence_threshold_pos by linarith
  have v0: "0 \<le> v" using nonneg v by blast
  show "0 \<le> fl (fl (v - Min (set ws)) / fl (Max (set ws) - Min (set ws)))
         \<and> fl (fl (v - Min (set ws)) / fl (Max (set ws) - Min (set ws))) \<le> 1"
    if r: "fl (Max (set ws) - Min (set ws)) > fl 0.01"
  proof -
    have "0 \<le> fl 0.01" by (rule fl_nonneg) simp
    with r have rp: "0 < fl (Max (set ws) - Min (set ws))" by linarith
    have "0 \<le> v - Min (set ws)" "v - Min (set ws) \<le> Max (set ws) - Min (set ws)"
      using le ge by simp_all
    then have "0 \<le> fl (v - Min (set ws))"
      "fl (v - Min (set ws)) \<le> fl (Max (set ws) - Min (set ws))"
      by (simp_all add: fl_nonneg fl_mono)
    then have "0 \<le> fl (v - Min (set ws)) / fl (Max (set ws) - Min (set ws))"
      "fl (v - Min (set ws)) / fl (Max (set ws) - Min (set ws)) \<le> 1"
      using rp by simp_all
    then show ?thesis by (simp add: fl_nonneg fl_le_1)
  qed
  have "0 \<le> v / Max (set ws)" "v / Max (set ws) \<le> 1" using v0 le pos by simp_all
  then show "0 \<le> fl (v / Max (set ws)) \<and> fl (v / Max (set ws)) \<le> 1"
    by (simp add: fl_nonneg fl_le_1)
qed

lemma generateWaveformData_range:
  assumes "v \<in> set (generateWaveformData buf n)"
  shows "0 \<le> v \<and> v \<le> 1"
proof -
  define ws where "ws = windowLevels buf n"
  have unfold: "generateWaveformData buf n =
     (if ws = [] then []
      else if Max (set ws) < fl 0.02 then map (\<lambda>_. 0) ws
      else map applyDynamicScaling
        (if fl (Max (set ws) - Min (set ws)) > fl 0.01
         then map (\<lambda>v. fl (fl (v - Min (set ws)) / fl (Max (set ws) - Min (set ws)))) ws
         else map (\<lambda>v. fl (v / Max (set ws))) ws))"
    unfolding ws_def by (rule generateWaveformData_unfold)
  have nonneg: "\<forall>w \<in> set ws. 0 \<le> w"
    using windowLevels_range by (auto simp: ws_def)
  show ?thesis
  proof (cases "ws = [] \<or> Max (set ws) < fl 0.02")
    case True
    with assms unfold show ?thesis by (auto split: if_splits)
  next
    case False
    then have ne: "ws \<noteq> []" and big: "\<not> Max (set ws) < fl 0.02" by simp_all
    show ?thesis
    proof (cases "fl (Max (set ws) - Min (set ws)) > fl 0.01")
      case True
      have "generateWaveformData buf n = map applyDynamicScaling
          (map (\<lambda>v. fl (fl (v - Min (set ws)) / fl (Max (set ws) - Min (set ws)))) ws)"
        by (simp only: unfold ne big True if_True if_False)
      with assms obtain w where w: "w \<in> set ws"
        and v: "v = applyDynamicScaling (fl (fl (w - Min (set ws)) / fl (Max (set ws) - Min (set ws))))"
        by auto
      show ?thesis unfolding v
        using normalized_range(1) [OF nonneg big w True]
        by (intro applyDynamicScaling_range) blast+
    next
      case F: False
      have "generateWaveformData buf n = map applyDynamicScaling
          (map (\<lambda>v. fl (v / Max (set ws))) ws)"
        by (simp only: unfold ne big F if_True if_False)
      with assms obtain w where w: "w \<in> set ws"
        and v: "v = applyDynamicScaling (fl (w / Max (set ws)))"
        by auto
      show ?thesis unfolding v
        using normalized_range(2) [OF nonneg big w]
        by (intro applyDynamicScaling_range) blast+
    qed
  qed
qed

lemma generateWaveformData_silence:
  assumes "\<forall>b \<in> set buf. b = 128"
  shows "generateWaveformData buf n = replicate n 0"
proof (cases "n = 0")
  case True
  then show ?thesis
    by (simp add: generateWaveformData_unfold windowLevels_silence [OF assms])
next
  case False
  then have "set (replicate n (0::real)) = {0}" by simp
  then have "Max (set (replicate n (0::real))) = 0" by simp
  then show ?thesis using False silence_threshold_pos
    by (simp add: generateWaveformData_unfold windowLevels_silence [OF assms] map_replicate_const)
qed

subsection \<open>The result on the example buffer\<close>

lemma fl_5: "fl 5 = 5"
  by (rule fl_value [where e = 2 and m = "5 * 2 ^ 50"]) (simp_all add: roundEven_def)

lemma fl_4: "fl 4 = 4"
  by (rule fl_value [where e = 2 and m = "2 ^ 52"]) (simp_all add: roundEven_def)

lemma fl_32nd: "fl (1 / 32) = 1 / 32"
  by (rule fl_value [where e = "- 5" and m = "2 ^ 52"]) (simp_all add: roundEven_def)

lemma fl_20th: "fl (1 / 20) = 3602879701896397 / 72057594037927936"
  by (rule fl_value [where e = "- 5" and m = 7205759403792794]) (simp_all add: roundEven_def)

lemma fl_16_5: "fl (16 / 5) = 3602879701896397 / 1125899906842624"
  by (rule fl_value [where e = 1 and m = 7205759403792794]) (simp_all add: roundEven_def)

lemma fl_level2: "fl (3602879701896397 / 1125899906842624 / 80) = 5764607523034235 / 144115188075855872"
  by (rule fl_value [where e = "- 5" and m = 5764607523034235]) (simp_all add: roundEven_def)

lemma fl_range: "fl (3602879701896397 / 72057594037927936 - 5764607523034235 / 144115188075855872)
    = 1441151880758559 / 144115188075855872"
  by (rule fl_value [where e = "- 7" and m = 5764607523034236]) (simp_all add: roundEven_def)

lemma fl_100th: "fl (1 / 100) = 5764607523034235 / 576460752303423488"
  by (rule fl_value [where e = "- 7" and m = 5764607523034235]) (simp_all add: roundEven_def)

lemma fl_015: "fl (15 / 100) = 5404319552844595 / 36028797018963968"
  by (rule fl_value [where e = "- 3" and m = 5404319552844595]) (simp_all add: roundEven_def)

lemma fl_085: "fl (1 - 5404319552844595 / 36028797018963968) = 7656119366529843 / 9007199254740992"
  by (rule fl_value [where e = "- 1" and m = 7656119366529843]) (simp_all add: roundEven_def)

lemma fl_085': "fl (7656119366529843 / 9007199254740992) = 7656119366529843 / 9007199254740992"
  by (rule fl_value [where e = "- 1" and m = 7656119366529843]) (simp_all add: roundEven_def)

lemma fl_sum1: "fl (5404319552844595 / 36028797018963968 + 7656119366529843 / 9007199254740992) = 1"
  by (rule fl_value [where e = "- 1" and m = "2 ^ 53"]) (simp_all add: roundEven_def)


lemma fl_level2_n: "fl (3602879701896397 / 90071992547409920) = 5764607523034235 / 144115188075855872"
  using fl_level2 by simp

lemma fl_range_n: "fl (1441151880758559 / 144115188075855872) = 1441151880758559 / 144115188075855872"
  using fl_range by simp

lemma fl_015_n: "fl (3 / 20) = 5404319552844595 / 36028797018963968"
  using fl_015 by simp

lemma fl_085_n: "fl (30624477466119373 / 36028797018963968) = 7656119366529843 / 9007199254740992"
  using fl_085 by simp

lemma fl_sum1_n: "fl (36028797018963967 / 36028797018963968) = 1"
  using fl_sum1 by simp

lemma stepBuffer_headerOffset:
  "min 100 (nat \<lfloor>fl (real (length stepBuffer) * fl 0.01)\<rfloor>) = 0"
proof -
  define x where "x = real (length stepBuffer) * fl 0.01"
  have "fl 0.01 = 5764607523034235 / 576460752303423488" using fl_100th by simp
  then have x: "0 \<le> x" "x \<le> 1 / 4" by (simp_all add: x_def stepBuffer_def)
  have "0 \<le> fl x" using x(1) by (rule fl_nonneg)
  moreover have "fl x \<le> 1 / 4" using fl_mono [OF x] by (simp add: fl_quarter)
  ultimately have "\<lfloor>fl x\<rfloor> = 0" by linarith
  then show ?thesis by (simp add: x_def)
qed

lemma upt_0_5: "[0..<5] = [0, 1, 2, 3, 4 :: nat]"
  by code_simp

lemma upt_5_10: "[5..<10] = [5, 6, 7, 8, 9 :: nat]"
  by code_simp

lemma upt_0_2: "[0..<2] = [0, 1 :: nat]"
  by code_simp

lemma fl_of_nat:
  assumes "0 < n" and "n < 2 ^ 53"
  shows "fl (real n) = real n"
proof -
  define e where "e = binade (real n)"
  have pos: "0 < real n" using assms(1) by simp
  have "binade 1 = 0" by (rule binade_eq) simp_all
  moreover have "binade 1 \<le> binade (real n)" using assms(1) by (intro binade_mono) simp_all
  ultimately have lo: "0 \<le> e" by (simp add: e_def)
  have hi: "e \<le> 52"
  proof (rule ccontr)
    assume "\<not> e \<le> 52"
    then have big: "53 \<le> e" by simp
    then have "- 1022 < binade (real n)" by (simp add: e_def)
    then have "2 powi e \<le> real n" unfolding e_def by (rule binade_lower [OF pos])
    moreover have "(2 :: real) powi 53 \<le> 2 powi e" using big by (intro power_int_increasing) simp_all
    moreover have "real n < 2 ^ 53" using assms(2) by (metis of_nat_less_iff of_nat_numeral of_nat_power)
    ultimately show False by simp
  qed
  define k where "k = nat (52 - e)"
  have e: "e - 52 = - int k" using hi by (simp add: k_def)
  have s: "(2 :: real) powi (e - 52) = 1 / 2 ^ k"
    unfolding e by (simp add: power_int_minus field_simps)
  have "real n / 2 powi (e - 52) = of_int (int n * 2 ^ k)" by (simp add: s)
  then have "roundEven (real n / 2 powi (e - 52)) = int n * 2 ^ k"
    by (simp only: roundEven_of_int)
  moreover have "fl (real n) = of_int (roundEven (real n / 2 powi (e - 52))) * 2 powi (e - 52)"
    using pos by (simp add: fl_def e_def)
  ultimately show ?thesis by (simp add: s)
qed

lemma fl_numeral: "numeral w < (2 :: nat) ^ 53 \<Longrightarrow> fl (numeral w) = numeral w"
  using fl_of_nat [of "numeral w"] by simp

lemma stepBuffer_sum1:
  "foldl (\<lambda>sum j. fl (sum + \<bar>byteAt stepBuffer j - 128\<bar>)) 0 [0..<5] = 20"
  unfolding upt_0_5 by (simp add: byteAt_def stepBuffer_def fl_numeral)

lemma stepBuffer_sum2:
  "foldl (\<lambda>sum j. fl (sum + \<bar>byteAt stepBuffer j - 128\<bar>)) 0 [5..<10] = 16"
  unfolding upt_5_10 by (simp add: byteAt_def stepBuffer_def fl_numeral)

lemma stepBuffer_window1: "windowLevel stepBuffer 0 5 = 3602879701896397 / 72057594037927936"
  unfolding windowLevel_def Let_def stepBuffer_sum1
  by (simp add: fl_4 fl_20th)

lemma stepBuffer_window2: "windowLevel stepBuffer 5 10 = 5764607523034235 / 144115188075855872"
  unfolding windowLevel_def Let_def stepBuffer_sum2
  by (simp add: fl_16_5 fl_level2_n)

lemma stepBuffer_levels:
  "windowLevels stepBuffer 2
     = [3602879701896397 / 72057594037927936, 5764607523034235 / 144115188075855872]"
proof -
  have len: "length stepBuffer = 10" by (simp add: stepBuffer_def)
  have "windowLevels stepBuffer 2 = [windowLevel stepBuffer 0 5, windowLevel stepBuffer 5 10]"
    unfolding windowLevels_def Let_def stepBuffer_headerOffset upt_0_2
    by (simp add: len fl_5)
  then show ?thesis by (simp only: stepBuffer_window1 stepBuffer_window2)
qed

lemma applyDynamicScaling_0: "applyDynamicScaling 0 = 0"
  using threshold_bounds by (simp add: applyDynamicScaling_def Let_def fl_0)

lemma applyDynamicScaling_1: "applyDynamicScaling 1 = 1"
proof -
  have "\<not> 1 < fl 0.4" using threshold_bounds by linarith
  moreover have "fl (1 - fl 0.4) \<noteq> 0"
    using threshold_bounds fl_mono [of "1 / 2" "1 - fl 0.4"] by (simp add: fl_half)
  ultimately show ?thesis
    by (simp add: applyDynamicScaling_def Let_def fl_1 fl_015_n fl_085_n fl_085' fl_sum1_n)
qed

lemma generateWaveformData_stepBuffer: "generateWaveformData stepBuffer 2 = [1, 0]"
proof -
  have "fl 0.02 \<le> 1 / 32" using fl_mono [of "0.02" "1 / 32"] by (simp add: fl_32nd)
  then have big: "\<not> 3602879701896397 / 72057594037927936 < fl 0.02" by simp
  have "fl 0.01 = 5764607523034235 / 576460752303423488" using fl_100th by simp
  then have wide: "fl 0.01 < 1441151880758559 / 144115188075855872" by simp
  show ?thesis
    unfolding generateWaveformData_unfold stepBuffer_levels
    using big wide
    by (simp add: fl_range_n fl_1 fl_0 applyDynamicScaling_0 applyDynamicScaling_1)
qed

text \<open>
  Claim C5. For every byte buffer and every sample count of at least 1,
  \<open>generateWaveformData\<close> returns exactly that many values, each within \<open>[0,1]\<close>, and for a
  buffer in which every byte is 128 it returns the all-zero series. The values are those of
  the source in binary64 arithmetic.
\<close>

theorem generateWaveformData_spec:
  assumes "sampleCount \<ge> 1"
  shows "length (generateWaveformData audioBuffer sampleCount) = sampleCount
       \<and> (\<forall>v \<in> set (generateWaveformData audioBuffer sampleCount). 0 \<le> v \<and> v \<le> 1)
       \<and> ((\<forall>b \<in> set audioBuffer. b = 128) \<longrightarrow>
            generateWaveformData audioBuffer sampleCount = replicate sampleCount 0)"
  using generateWaveformData_length generateWaveformData_range generateWaveformData_silence
  by blast

theorem generateWaveformData_spec_witness:
  "(1 :: nat) \<le> 2
   \<and> length (generateWaveformData stepBuffer 2) = 2
   \<and> generateWaveformData stepBuffer 2 = [1, 0]
   \<and> set [128, 128, 128, 128 :: 8 word] = {128}
   \<and> generateWaveformData [128, 128, 128, 128] 2 = [0, 0]"
proof -
  have n: "(1 :: nat) \<le> 2" by simp
  have silent: "\<forall>b \<in> set [128, 128, 128, 128 :: 8 word]. b = 128" by simp
  from generateWaveformData_spec [OF n, of stepBuffer]
  have "length (generateWaveformData stepBuffer 2) = 2" by simp
  moreover from generateWaveformData_spec [OF n, of "[128, 128, 128, 128]"] silent
  have "generateWaveformData [128, 128, 128, 128] 2 = [0, 0]" by (simp add: numeral_2_eq_2)
  ultimately show ?thesis using generateWaveformData_stepBuffer by simp
qed


section \<open>Tempo detection properties\<close>

text \<open>
  What holds of every result: it is 0, or at least 60 and at most 360. The best lag is at most
  \<open>\<lfloor>samplesPerSecond\<rfloor>\<close>, which gives the lower bound; it is at least
  \<open>\<lfloor>samplesPerSecond / 3\<rfloor>\<close> and at least 1, which only gives 360 as the upper bound.
\<close>

lemma lagStep_cases:
  "lagStep sps onsets lag best = best
   \<or> (lag \<noteq> 0 \<and> fst (lagStep sps onsets lag best) = lag)"
  by (simp add: lagStep_def Let_def)

lemma lagLoop_range:
  assumes "fst best = 0 \<or> (1 \<le> fst best \<and> lo \<le> fst best \<and> fst best \<le> maxLag)"
    and "lo \<le> lag"
  shows "fst (lagLoop sps onsets maxLag lag best) = 0
       \<or> (1 \<le> fst (lagLoop sps onsets maxLag lag best)
           \<and> lo \<le> fst (lagLoop sps onsets maxLag lag best)
           \<and> fst (lagLoop sps onsets maxLag lag best) \<le> maxLag)"
  using assms
proof (induction sps onsets maxLag lag best rule: lagLoop.induct)
  case (1 sps onsets maxLag lag best)
  show ?case
  proof (cases "lag \<le> maxLag \<and> real lag < real (length onsets) / 2")
    case True
    have step: "fst (lagStep sps onsets lag best) = 0
        \<or> (1 \<le> fst (lagStep sps onsets lag best) \<and> lo \<le> fst (lagStep sps onsets lag best)
            \<and> fst (lagStep sps onsets lag best) \<le> maxLag)"
      using lagStep_cases [of sps onsets lag best] "1.prems" True by auto
    have "lo \<le> lag + 1" using "1.prems"(2) by simp
    from "1.IH" [OF True step this] True show ?thesis
      by (simp del: lagLoop.simps add: lagLoop.simps [of sps onsets maxLag lag best])
  next
    case False
    then have "lagLoop sps onsets maxLag lag best = best"
      by (auto simp del: lagLoop.simps simp add: lagLoop.simps [of sps onsets maxLag lag best])
    with "1.prems"(1) show ?thesis by simp
  qed
qed

lemma mathRound_mono: "x \<le> y \<Longrightarrow> mathRound x \<le> mathRound y"
  by (simp add: mathRound_def floor_mono)

lemma mathRound_of_int: "mathRound (of_int z) = z"
  unfolding mathRound_def by linarith

lemma detectBPM_range:
  "detectBPM waveform durationSeconds = 0
   \<or> (60 \<le> detectBPM waveform durationSeconds \<and> detectBPM waveform durationSeconds \<le> 360)"
proof (cases "length waveform < 100 \<or> durationSeconds < 10")
  case True
  then show ?thesis by (simp add: detectBPM_def)
next
  case False
  define sps where "sps = real (length waveform) / durationSeconds"
  define minLag where "minLag = nat \<lfloor>(60 / 180) * sps\<rfloor>"
  define maxLag where "maxLag = nat \<lfloor>(60 / 60) * sps\<rfloor>"
  define onsets where "onsets = onsetsOf (envelopeOf waveform (max 3 (nat \<lfloor>sps / 20\<rfloor>)))"
  define bestLag where "bestLag = fst (lagLoop sps onsets maxLag minLag (0, 0))"
  have "100 \<le> length waveform" and "10 \<le> durationSeconds"
    using False by simp_all
  then have "0 < real (length waveform)" and "0 < durationSeconds"
    by linarith+
  then have pos: "0 < sps" unfolding sps_def by (rule divide_pos_pos)
  have res: "detectBPM waveform durationSeconds
      = (if bestLag = 0 then 0 else mathRound ((60 * sps) / real bestLag))"
    using False
    unfolding detectBPM_def Let_def bestLag_def onsets_def maxLag_def minLag_def sps_def
    by simp
  have range: "bestLag = 0 \<or> (1 \<le> bestLag \<and> minLag \<le> bestLag \<and> bestLag \<le> maxLag)"
    unfolding bestLag_def by (rule lagLoop_range) simp_all
  show ?thesis
  proof (cases "bestLag = 0")
    case True
    then show ?thesis by (simp add: res)
  next
    case nz: False
    with range have b: "1 \<le> bestLag" "minLag \<le> bestLag" "bestLag \<le> maxLag" by simp_all
    have up: "real bestLag \<le> sps"
    proof -
      have "real maxLag \<le> sps" using pos unfolding maxLag_def by simp
      with b(3) show ?thesis by simp
    qed
    have lo: "sps < 6 * real bestLag"
    proof (cases "sps < 3")
      case True
      with b(1) show ?thesis by simp
    next
      case False
      have "sps / 3 < real minLag + 1" using pos unfolding minLag_def by simp
      moreover have "1 \<le> real minLag" using False unfolding minLag_def by simp
      ultimately have "sps < 6 * real minLag" by simp
      with b(2) show ?thesis by simp
    qed
    have bl: "0 < real bestLag" using b(1) by simp
    have "60 \<le> (60 * sps) / real bestLag" using up bl by (simp add: field_simps)
    then have "mathRound 60 \<le> mathRound ((60 * sps) / real bestLag)" by (rule mathRound_mono)
    moreover have "(60 * sps) / real bestLag \<le> 360" using lo bl by (simp add: field_simps)
    then have "mathRound ((60 * sps) / real bestLag) \<le> mathRound 360" by (rule mathRound_mono)
    moreover have "mathRound 60 = 60" "mathRound 360 = 360"
      using mathRound_of_int [of 60] mathRound_of_int [of 360] by simp_all
    ultimately show ?thesis using nz by (simp add: res)
  qed
qed

text \<open>
  Claim C6 says that \<open>detectBPM\<close> returns 0 or a tempo within \<open>[60,180]\<close>. On the series
  \<open>stepSeries\<close> (100 samples) with a duration of 20 seconds there are 5 samples per second, the
  smallest lag searched is \<open>\<lfloor>5 / 3\<rfloor> = 1\<close>, the only positive correlation is at lag 1, and
  the function returns 300.
\<close>

theorem detectBPM_stepSeries: "detectBPM stepSeries 20 = 300"
  by code_simp


section \<open>Synthetic waveform properties\<close>

lemma random_range: "0 \<le> random seed x \<and> random seed x < 1"
  unfolding random_def Let_def by linarith

lemma syntheticSample_bounds:
  "8 / 100 \<le> syntheticSample samples seed i \<and> syntheticSample samples seed i \<le> 11 / 10"
proof -
  define t where "t = real i / real samples"
  define v0 where "v0 = (if t < 0.05 then t * 7
                  else if t > 0.95 then (1 - t) * 7
                  else 0.35 + 0.15 * sin (t * pi))
              + sin (t * 47 + seed * 0.01) * 0.12 + sin (t * 113 + seed * 0.007) * 0.08
              + sin (t * 211 + seed * 0.003) * 0.06 + (random seed (real i) - 0.5) * 0.25"
  define v1 where "v1 = max 0.08 (min 1 \<bar>v0\<bar>)"
  define bp where "bp = random seed (real i * 0.1)"
  define v2 where "v2 = (if bp > 0.85 then min 1 (v1 * (1.2 + bp * 0.5)) else v1)"
  have v1: "8 / 100 \<le> v1" "v1 \<le> 1" unfolding v1_def by simp_all
  have v2: "8 / 100 \<le> v2 \<and> v2 \<le> 1"
  proof (cases "bp > 0.85")
    case True
    then have "1 \<le> 1.2 + bp * 0.5" by simp
    with v1(1) have "8 / 100 * 1 \<le> v1 * (1.2 + bp * 0.5)"
      by (intro mult_mono) simp_all
    with True show ?thesis unfolding v2_def by simp
  next
    case False
    with v1 show ?thesis unfolding v2_def by simp
  qed
  have "syntheticSample samples seed i
      = (if \<lfloor>t * 8\<rfloor> mod 4 = 2 \<or> \<lfloor>t * 8\<rfloor> mod 4 = 3 then v2 * 1.1 else v2)"
    unfolding syntheticSample_def Let_def v2_def bp_def v1_def v0_def t_def by simp
  with v2 show ?thesis by auto
qed

lemma generateSyntheticWaveform_bounds:
  assumes "v \<in> set (generateSyntheticWaveform samples durationSeconds trackId)"
  shows "8 / 100 \<le> v \<and> v \<le> 11 / 10"
  using assms syntheticSample_bounds
  by (auto simp: generateSyntheticWaveform_def Let_def)


subsection \<open>Enclosures of the sine\<close>

lemma sinSum_numeral:
  "sinSum (numeral k) x t d
     = t + sinSum (pred_numeral k) x (- t * x * x / (real (d + 1) * real (d + 2))) (d + 2)"
  by (simp add: numeral_eq_Suc)

lemma sin_coeff_odd_step:
  assumes "odd d"
  shows "- (sin_coeff d * x ^ d) * x * x / (real (d + 1) * real (d + 2))
     = sin_coeff (d + 2) * x ^ (d + 2)"
proof -
  from assms obtain j where d: "d = 2 * j + 1" by (auto elim: oddE)
  show ?thesis unfolding d by (simp add: sin_coeff_def field_simps)
qed

lemma sinSum_series:
  assumes "odd d" and "t = sin_coeff d * x ^ d"
  shows "sinSum k x t d = (\<Sum>i<k. sin_coeff (d + 2 * i) * x ^ (d + 2 * i))"
  using assms
proof (induction k arbitrary: d t)
  case 0
  show ?case by simp
next
  case (Suc k)
  define g where "g m = sin_coeff m * x ^ m" for m
  have odd2: "odd (d + 2)" using Suc.prems(1) by simp
  have step: "- t * x * x / (real (d + 1) * real (d + 2)) = sin_coeff (d + 2) * x ^ (d + 2)"
    using sin_coeff_odd_step [OF Suc.prems(1), of x] Suc.prems(2) by simp
  have "sinSum (Suc k) x t d = t + sinSum k x (- t * x * x / (real (d + 1) * real (d + 2))) (d + 2)"
    by simp
  also have "\<dots> = g d + (\<Sum>i<k. g (d + 2 + 2 * i))"
    unfolding g_def using Suc.IH [OF odd2 step] Suc.prems(2) by simp
  also have "(\<Sum>i<k. g (d + 2 + 2 * i)) = (\<Sum>i<k. g (d + 2 * Suc i))"
    by (simp add: add.assoc)
  also have "g d + (\<Sum>i<k. g (d + 2 * Suc i)) = (\<Sum>i<Suc k. g (d + 2 * i))"
    using sum.lessThan_Suc_shift [of "\<lambda>i. g (d + 2 * i)" k] by simp
  finally show ?case unfolding g_def .
qed

lemma maclaurin_odd:
  "(\<Sum>m<2 * k + 1. sin_coeff m * x ^ m) = (\<Sum>i<k. sin_coeff (1 + 2 * i) * x ^ (1 + 2 * i))"
proof (induction k)
  case 0
  show ?case by simp
next
  case (Suc k)
  define g where "g m = sin_coeff m * x ^ m" for m
  have even0: "g (2 * k + 2) = 0" by (simp add: g_def sin_coeff_def)
  have "(\<Sum>m<2 * Suc k + 1. g m) = (\<Sum>m<2 * k + 1. g m) + g (2 * k + 1) + g (2 * k + 2)"
    by simp
  also have "\<dots> = (\<Sum>i<k. g (1 + 2 * i)) + g (1 + 2 * k)"
    using Suc even0 by (simp add: g_def add.commute)
  also have "\<dots> = (\<Sum>i<Suc k. g (1 + 2 * i))" by simp
  finally show ?case unfolding g_def .
qed

lemma sinSum_bound:
  "\<bar>sin x - sinSum k x x 1\<bar> \<le> inverse (fact (2 * k + 1)) * \<bar>x\<bar> ^ (2 * k + 1)"
proof -
  have "x = sin_coeff 1 * x ^ 1" by (simp add: sin_coeff_def)
  then have "sinSum k x x 1 = (\<Sum>i<k. sin_coeff (1 + 2 * i) * x ^ (1 + 2 * i))"
    by (intro sinSum_series) simp_all
  then have "sinSum k x x 1 = (\<Sum>m<2 * k + 1. sin_coeff m * x ^ m)"
    by (simp only: maclaurin_odd)
  then show ?thesis using Maclaurin_sin_bound [of x "2 * k + 1"] by simp
qed

lemma sin_enclosure:
  assumes "lo \<le> sinSum k x x 1 - e" and "sinSum k x x 1 + e \<le> hi"
    and "inverse (fact (2 * k + 1)) * \<bar>x\<bar> ^ (2 * k + 1) \<le> e"
  shows "lo \<le> sin x \<and> sin x \<le> hi"
  using sinSum_bound [of x k] assms by linarith

lemma sin_3139: "0 < sin (3139 / 1000 :: real)"
proof -
  have "(1 / 1000 :: real) \<le> sin (3139 / 1000) \<and> sin (3139 / 1000 :: real) \<le> 1"
    by (rule sin_enclosure [where k = 9 and e = "1 / 10000"])
      (simp_all add: sinSum_numeral fact_numeral power_divide)
  then show ?thesis by linarith
qed

lemma sin_3142: "sin (3142 / 1000 :: real) < 0"
proof -
  have "(-1 :: real) \<le> sin (3142 / 1000) \<and> sin (3142 / 1000 :: real) \<le> - (1 / 10000)"
    by (rule sin_enclosure [where k = 9 and e = "1 / 10000"])
      (simp_all add: sinSum_numeral fact_numeral power_divide)
  then show ?thesis by linarith
qed

lemma pi_bounds: "3139 / 1000 < pi \<and> pi < 3142 / 1000"
proof
  show "3139 / 1000 < pi"
  proof (rule ccontr)
    assume "\<not> 3139 / 1000 < pi"
    then have "pi \<le> 3139 / 1000" by simp
    moreover have "(3139 / 1000 :: real) < 2 * pi" using pi_ge_two by simp
    ultimately have "sin (3139 / 1000 :: real) \<le> 0" by (rule sin_le_zero)
    with sin_3139 show False by simp
  qed
  show "pi < 3142 / 1000"
  proof (rule ccontr)
    assume "\<not> pi < 3142 / 1000"
    then have "3142 / 1000 \<le> pi" by simp
    then have "0 \<le> sin (3142 / 1000 :: real)" by (intro sin_ge_zero) simp_all
    with sin_3142 show False by simp
  qed
qed

lemma roundDown_le: "roundDown r \<le> r"
  by (simp add: roundDown_def field_simps)

lemma roundUp_ge: "r \<le> roundUp r"
  by (simp add: roundUp_def field_simps)

lemma sinSumI_sound:
  assumes "l \<le> t" and "t \<le> u" and "al \<le> a" and "a \<le> au"
  shows "fst (sinSumI k x l u d al au) \<le> a + sinSum k x t d
       \<and> a + sinSum k x t d \<le> snd (sinSumI k x l u d al au)"
  using assms
proof (induction k arbitrary: l u t d al au a)
  case 0
  then show ?case by simp
next
  case (Suc k)
  define q where "q = x * x / (real (d + 1) * real (d + 2))"
  have q0: "0 \<le> q" unfolding q_def by simp
  have "t * q \<le> u * q" and "l * q \<le> t * q"
    using Suc.prems q0 by (simp_all add: mult_right_mono)
  then have lo: "roundDown (- u * q) \<le> - t * q" and hi: "- t * q \<le> roundUp (- l * q)"
    using roundDown_le [of "- u * q"] roundUp_ge [of "- l * q"] by simp_all
  have al: "al + l \<le> a + t" and au: "a + t \<le> au + u"
    using Suc.prems by simp_all
  have eq: "- t * x * x / (real (d + 1) * real (d + 2)) = - t * q"
    unfolding q_def by simp
  have "sinSumI (Suc k) x l u d al au
      = sinSumI k x (roundDown (- u * q)) (roundUp (- l * q)) (d + 2) (al + l) (au + u)"
    unfolding q_def by simp
  moreover have "a + sinSum (Suc k) x t d = (a + t) + sinSum k x (- t * q) (d + 2)"
    using eq by simp
  ultimately show ?case
    using Suc.IH [OF lo hi al au, of "d + 2"] by simp
qed

lemma sinSumI_numeral:
  "sinSumI (numeral k) x l u d al au =
     sinSumI (pred_numeral k) x (roundDown (- u * (x * x / (real (d + 1) * real (d + 2)))))
                 (roundUp (- l * (x * x / (real (d + 1) * real (d + 2)))))
                 (d + 2) (al + l) (au + u)"
  by (simp add: numeral_eq_Suc)

lemma sin_interval:
  assumes "sinSumI k x x x 1 0 0 = (L, U)"
    and "inverse (fact (2 * k + 1)) * \<bar>x\<bar> ^ (2 * k + 1) \<le> e"
    and "lo \<le> L - e" and "U + e \<le> hi"
  shows "lo \<le> sin x \<and> sin x \<le> hi"
proof -
  have "fst (sinSumI k x x x 1 0 0) \<le> 0 + sinSum k x x 1
      \<and> 0 + sinSum k x x 1 \<le> snd (sinSumI k x x x 1 0 0)"
    by (rule sinSumI_sound) simp_all
  then have "L \<le> sinSum k x x 1 \<and> sinSum k x x 1 \<le> U"
    unfolding assms(1) by simp
  then show ?thesis
    using sinSum_bound [of x k] assms(2-4) by linarith
qed

lemma sin_beat:
  "421519000 / 437585453 \<le> sin (129898 / 100000 :: real)
    \<and> sin (129898 / 100000 :: real) \<le> 421519900 / 437585453"
proof (rule sin_interval [where k = 9 and e = "1 / 10000000000"])
  show "sinSumI 9 (129898 / 100000) (129898 / 100000) (129898 / 100000) 1 0 0
      = (192656967083276889 / 200000000000000000, 963284835416384453 / 1000000000000000000)"
    by (simp add: sinSumI_numeral roundDown_def roundUp_def)
  show "inverse (fact (2 * 9 + 1)) * \<bar>129898 / 100000 :: real\<bar> ^ (2 * 9 + 1) \<le> 1 / 10000000000"
    by (simp add: fact_numeral power_divide)
qed simp_all

lemma sin_noise:
  "179799000 / 437585453 \<le> sin (129898 / 10000 :: real)
    \<and> sin (129898 / 10000 :: real) \<le> 179799500 / 437585453"
proof (rule sin_interval [where k = 28 and e = "1 / 10000000000"])
  show "sinSumI 28 (129898 / 10000) (129898 / 10000) (129898 / 10000) 1 0 0
      = (82177876650697067 / 200000000000000000, 205444691626743023 / 500000000000000000)"
    by (simp add: sinSumI_numeral roundDown_def roundUp_def)
  show "inverse (fact (2 * 28 + 1)) * \<bar>129898 / 10000 :: real\<bar> ^ (2 * 28 + 1) \<le> 1 / 10000000000"
    by (simp add: fact_numeral power_divide)
qed simp_all


subsection \<open>A sample above 1\<close>

lemma sin_shift: "sin (x - 2 * real n * pi) = sin x"
  by (simp add: sin_diff)

lemma random_frac:
  assumes "real_of_int z + lo \<le> sin (x * 12.9898 + seed * 78.233) * 43758.5453"
    and "sin (x * 12.9898 + seed * 78.233) * 43758.5453 \<le> real_of_int z + hi"
    and "0 \<le> lo" and "hi < 1"
  shows "lo \<le> random seed x \<and> random seed x \<le> hi"
proof -
  define v where "v = sin (x * 12.9898 + seed * 78.233) * 43758.5453"
  have "\<lfloor>v\<rfloor> = z"
    using assms unfolding v_def [symmetric] by (intro floor_unique) linarith+
  then show ?thesis
    using assms unfolding random_def Let_def v_def [symmetric] by simp
qed

lemma random_beat: "9 / 10 \<le> random 0 (1 / 10) \<and> random 0 (1 / 10) \<le> 99 / 100"
proof (rule random_frac [where z = 42151])
  have arg: "(1 / 10 :: real) * 12.9898 + 0 * 78.233 = 129898 / 100000" by simp
  show "real_of_int 42151 + 9 / 10 \<le> sin (1 / 10 * 12.9898 + 0 * 78.233) * 43758.5453"
    unfolding arg using sin_beat by simp
  show "sin (1 / 10 * 12.9898 + 0 * 78.233) * 43758.5453 \<le> real_of_int 42151 + 99 / 100"
    unfolding arg using sin_beat by simp
qed simp_all

lemma random_noise: "9 / 10 \<le> random 0 1 \<and> random 0 1 \<le> 95 / 100"
proof (rule random_frac [where z = 17979])
  have arg: "(1 :: real) * 12.9898 + 0 * 78.233 = 129898 / 10000" by simp
  show "real_of_int 17979 + 9 / 10 \<le> sin (1 * 12.9898 + 0 * 78.233) * 43758.5453"
    unfolding arg using sin_noise by simp
  show "sin (1 * 12.9898 + 0 * 78.233) * 43758.5453 \<le> real_of_int 17979 + 95 / 100"
    unfolding arg using sin_noise by simp
qed simp_all


lemma sin_12: "93 / 100 \<le> sin (12 / 10 :: real) \<and> sin (12 / 10 :: real) \<le> 1"
  by (rule sin_enclosure [where k = 6 and e = "1 / 100000"])
      (simp_all add: sinSum_numeral fact_numeral power_divide)

lemma sqrt3_ge: "173 / 100 \<le> sqrt 3"
  by (rule real_le_rsqrt) (simp add: power2_eq_square)

lemma wave1_at: "0 \<le> sin (47 / 3 :: real)"
proof -
  have "0 \<le> sin (47 / 3 - 2 * real 2 * pi)"
    using pi_bounds by (intro sin_ge_zero) simp_all
  then show ?thesis by (simp only: sin_shift)
qed

lemma wave2_at: "- (4 / 100) \<le> sin (113 / 3 :: real)"
proof -
  define r where "r = 2 * real 6 * pi - 113 / 3"
  have r: "0 \<le> r" "r \<le> 4 / 100"
    using pi_bounds by (simp_all add: r_def)
  have "sin r \<le> r" using r(1) by (rule sin_x_le_x)
  moreover have "sin (113 / 3 - 2 * real 6 * pi) = - sin r"
    unfolding r_def by (simp only: sin_minus [symmetric] minus_diff_eq)
  ultimately have "- (4 / 100) \<le> sin (113 / 3 - 2 * real 6 * pi)"
    using r(2) by linarith
  then show ?thesis by (simp only: sin_shift)
qed

lemma wave3_at: "93 / 100 \<le> sin (211 / 3 :: real)"
proof -
  define r where "r = 211 / 3 - 2 * real 11 * pi"
  have r: "12 / 10 \<le> r" "r \<le> pi / 2"
    using pi_bounds by (simp_all add: r_def)
  have "sin (12 / 10) \<le> sin r"
    using r pi_bounds by (intro sin_monotone_2pi_le) simp_all
  with sin_12 have "93 / 100 \<le> sin (211 / 3 - 2 * real 11 * pi)"
    unfolding r_def by linarith
  then show ?thesis by (simp only: sin_shift)
qed

lemma syntheticSample_peak:
  fixes n i :: nat and seed :: real
  defines "t \<equiv> real i / real n"
  assumes sec: "\<lfloor>t * 8\<rfloor> mod 4 = 2 \<or> \<lfloor>t * 8\<rfloor> mod 4 = 3"
    and mid: "\<not> t < 0.05" "\<not> t > 0.95"
    and beat: "random seed (real i * 0.1) > 0.85"
    and big: "8 / 13 \<le> 0.35 + 0.15 * sin (t * pi) + sin (t * 47 + seed * 0.01) * 0.12
                + sin (t * 113 + seed * 0.007) * 0.08 + sin (t * 211 + seed * 0.003) * 0.06
                + (random seed (real i) - 0.5) * 0.25"
  shows "syntheticSample n seed i = 1.1"
proof -
  define v0 where "v0 = 0.35 + 0.15 * sin (t * pi) + sin (t * 47 + seed * 0.01) * 0.12
                + sin (t * 113 + seed * 0.007) * 0.08 + sin (t * 211 + seed * 0.003) * 0.06
                + (random seed (real i) - 0.5) * 0.25"
  define v1 where "v1 = max 0.08 (min 1 \<bar>v0\<bar>)"
  define bp where "bp = random seed (real i * 0.1)"
  have v1: "8 / 13 \<le> v1" using big unfolding v1_def v0_def [symmetric] by simp
  have f: "13 / 8 \<le> 1.2 + bp * 0.5" using beat unfolding bp_def [symmetric] by simp
  have "8 / 13 * (13 / 8) \<le> v1 * (1.2 + bp * 0.5)"
    using v1 f by (intro mult_mono) simp_all
  then have sat: "min 1 (v1 * (1.2 + bp * 0.5)) = 1" by simp
  have "syntheticSample n seed i
      = (let value2 = (if bp > 0.85 then min 1 (v1 * (1.2 + bp * 0.5)) else v1)
         in if \<lfloor>t * 8\<rfloor> mod 4 = 2 \<or> \<lfloor>t * 8\<rfloor> mod 4 = 3 then value2 * 1.1 else value2)"
    unfolding syntheticSample_def Let_def v1_def v0_def bp_def t_def [symmetric]
    using mid by simp
  also have "\<dots> = 1.1"
    using sec beat sat unfolding bp_def [symmetric] by (simp add: Let_def)
  finally show ?thesis .
qed

lemma peak_sum:
  fixes a b c d r :: real
  assumes "173 / 200 \<le> a" and "0 \<le> b" and "- (4 / 100) \<le> c" and "93 / 100 \<le> d"
    and "9 / 10 \<le> r"
  shows "8 / 13 \<le> 35 / 100 + 15 / 100 * a + b * (12 / 100) + c * (8 / 100) + d * (6 / 100)
          + (r - 5 / 10) * (25 / 100)"
  using assms by argo

lemma syntheticSample_3_0_1: "syntheticSample 3 0 1 = 11 / 10"
proof -
  have base: "173 / 200 \<le> sin (1 / 3 * pi)"
    using sqrt3_ge sin_60 by simp
  have w: "0 \<le> sin (1 / 3 * 47 + 0 * 0.01 :: real)" "- (4 / 100) \<le> sin (1 / 3 * 113 + 0 * 0.007 :: real)"
    "93 / 100 \<le> sin (1 / 3 * 211 + 0 * 0.003 :: real)"
    using wave1_at wave2_at wave3_at by simp_all
  have noise: "9 / 10 \<le> random 0 1" using random_noise by simp
  have "syntheticSample 3 0 1 = 1.1"
  proof (rule syntheticSample_peak)
    show "\<lfloor>real 1 / real 3 * 8\<rfloor> mod 4 = 2 \<or> \<lfloor>real 1 / real 3 * 8\<rfloor> mod 4 = 3"
      by simp
    show "\<not> real 1 / real 3 < 0.05" "\<not> real 1 / real 3 > 0.95" by simp_all
    show "random 0 (real 1 * 0.1) > 0.85" using random_beat by simp
    show "8 / 13 \<le> 0.35 + 0.15 * sin (real 1 / real 3 * pi) + sin (real 1 / real 3 * 47 + 0 * 0.01) * 0.12
                + sin (real 1 / real 3 * 113 + 0 * 0.007) * 0.08 + sin (real 1 / real 3 * 211 + 0 * 0.003) * 0.06
                + (random 0 (real 1) - 0.5) * 0.25"
      using peak_sum [OF base w noise] by simp
  qed
  then show ?thesis by simp
qed

text \<open>
  Claim C4 says that every sample of the synthetic waveform lies within \<open>[0.08,1]\<close>. The
  generator clamps a sample to \<open>[0.08,1]\<close> and afterwards multiplies it by 1.1 in the third and
  fourth of every four sections: for three samples, duration 0 and no identifier, the sample
  at index 1 is 1.1.
\<close>

theorem generateSyntheticWaveform_above_one:
  "generateSyntheticWaveform 3 0 None ! 1 = 11 / 10
   \<and> \<not> generateSyntheticWaveform 3 0 None ! 1 \<le> 1"
proof -
  have "generateSyntheticWaveform 3 0 None ! 1 = syntheticSample 3 0 1"
    by (simp add: generateSyntheticWaveform_def seedOf_def)
  then have "generateSyntheticWaveform 3 0 None ! 1 = 11 / 10"
    by (simp only: syntheticSample_3_0_1)
  then show ?thesis by simp
qed

end
